theory Spec2Isabelle
  imports Complex_Main "HOL-Library.AList"
begin

section \<open>The metrics store of \<open>core/lib/metrics.js\<close>\<close>

text \<open>
  The class \<open>Metrics\<close> keeps timestamped events per metric name, start and stop marks
  per watermark name, and the list of aggregated periods. The function
  \<open>defaultAggregator\<close> is called by a repeating timer and folds the pending events of
  one window into a period.

  Modelling conventions.
  \<^item> A JavaScript object used as a dictionary is an association list whose keys are
    in insertion order; the assignment \<open>obj[k] = x\<close> is \<open>AList.update k x\<close>
    (an existing key keeps its place, a new key goes to the end). JavaScript lists
    keys that are array indices first; no statement here depends on the order of
    keys. Members inherited from \<open>Object.prototype\<close> are not part of the model.
  \<^item> \<open>Date.now()\<close> is a count of milliseconds, a \<open>nat\<close>; every operation that reads
    the clock takes the reading as an argument. The identifier drawn by \<open>uuid()\<close> is
    an argument too. The options \<open>aggregationInterval\<close> and \<open>aggregationLag\<close> are whole
    seconds. Clock readings and durations stay below \<open>2^53\<close>, where the sums the
    aggregator forms of them are exact.
  \<^item> Every other number is a binary64 value, and every arithmetic operation on such
    numbers rounds its exact result to the nearest binary64 value, ties to even
    (section Numbers).
  \<^item> The histogram library \<open>hdr-histogram-js\<close> is not part of the repository: it is a
    parameter \<open>hdr\<close> that maps the recorded values to the statistics the aggregator
    reads, or to \<open>None\<close> when recording raises.
  \<^item> The options \<open>aggregator\<close> and \<open>flusher\<close> of the constructor are not given: the
    aggregator is \<open>defaultAggregator\<close>. The timer that calls it is a \<open>Tick\<close> of a run,
    at any clock reading.
\<close>

subsection \<open>Numbers\<close>

text \<open>
  A JavaScript number is an IEEE 754 binary64 value: a finite value, kept as the
  rational number it denotes, an infinity, or NaN. The two zeros are not told apart
  (they differ only as divisors and in printing, and no divisor of the program can be
  \<open>-0\<close>: it divides by the interval in seconds and by \<open>Math.pow(10, decimals)\<close>).
\<close>

datatype number = Num rat | PosInf | NegInf | NaN

text \<open>\<open>ilog2 n\<close> is the integer part of the binary logarithm of \<open>n \<ge> 1\<close>, \<open>clog2 n\<close> its ceiling.\<close>

function ilog2 :: "int \<Rightarrow> int" where
  "ilog2 n = (if n < 2 then 0 else 1 + ilog2 (n div 2))"
  by pat_completeness auto
termination
  by (relation "measure nat") auto

declare ilog2.simps [simp del]

definition clog2 :: "int \<Rightarrow> int" where
  "clog2 n = (if n \<le> 1 then 0 else 1 + ilog2 (n - 1))"

definition pow2 :: "int \<Rightarrow> rat" where
  "pow2 e = (if 0 \<le> e then 2 ^ nat e else 1 / 2 ^ nat (- e))"

text \<open>The binary exponent of \<open>a > 0\<close>: the \<open>e\<close> with \<open>2^e \<le> a < 2^(e+1)\<close>.\<close>

definition exponent :: "rat \<Rightarrow> int" where
  "exponent a = (if 1 \<le> a then ilog2 \<lfloor>a\<rfloor> else - clog2 \<lceil>1 / a\<rceil>)"

definition round_even :: "rat \<Rightarrow> int" where
  "round_even k =
     (let f = \<lfloor>k\<rfloor>; r = k - of_int f
      in if r < 1 / 2 then f else if 1 / 2 < r then f + 1 else if even f then f else f + 1)"

text \<open>
  \<open>fl x\<close> is the binary64 value nearest to the exact result \<open>x\<close>, ties to even: a
  multiple of \<open>2^(e - 52)\<close> for a normal value of exponent \<open>e\<close>, of \<open>2^(-1074)\<close> below
  \<open>2^(-1022)\<close>, and an infinity when the rounded magnitude reaches \<open>2^1024\<close> (which
  takes an exponent of 1023 at least).
\<close>

definition fl :: "rat \<Rightarrow> number" where
  "fl x =
     (if x = 0 then Num 0
      else
        (let a = \<bar>x\<bar>;
             e = exponent a;
             q = pow2 (max e (- 1022) - 52);
             y = of_int (round_even (a / q)) * q
         in if e < 1023 then Num (if 0 < x then y else - y)
            else if pow2 1024 \<le> y then (if 0 < x then PosInf else NegInf)
            else Num (if 0 < x then y else - y)))"

text \<open>The operators \<open>+\<close>, \<open>*\<close> and \<open>/\<close> on numbers, and \<open>Math.round\<close> (half rounds up).\<close>

fun js_add :: "number \<Rightarrow> number \<Rightarrow> number" where
  "js_add (Num a) (Num b) = fl (a + b)"
| "js_add NaN y = NaN"
| "js_add x NaN = NaN"
| "js_add PosInf NegInf = NaN"
| "js_add NegInf PosInf = NaN"
| "js_add PosInf y = PosInf"
| "js_add NegInf y = NegInf"
| "js_add (Num a) y = y"

fun js_neg :: "number \<Rightarrow> number" where
  "js_neg (Num a) = Num (- a)"
| "js_neg PosInf = NegInf"
| "js_neg NegInf = PosInf"
| "js_neg NaN = NaN"

fun js_mul :: "number \<Rightarrow> number \<Rightarrow> number" where
  "js_mul (Num a) (Num b) = fl (a * b)"
| "js_mul NaN y = NaN"
| "js_mul x NaN = NaN"
| "js_mul (Num a) y = (if a = 0 then NaN else if 0 < a then y else js_neg y)"
| "js_mul x (Num b) = (if b = 0 then NaN else if 0 < b then x else js_neg x)"
| "js_mul x y = (if x = y then PosInf else NegInf)"

fun js_div :: "number \<Rightarrow> number \<Rightarrow> number" where
  "js_div (Num a) (Num b) =
     (if b = 0 then (if a = 0 then NaN else if 0 < a then PosInf else NegInf)
      else fl (a / b))"
| "js_div NaN y = NaN"
| "js_div x NaN = NaN"
| "js_div (Num a) y = Num 0"
| "js_div x (Num b) = (if 0 \<le> b then x else js_neg x)"
| "js_div x y = NaN"

fun math_round :: "number \<Rightarrow> number" where
  "math_round (Num a) = Num (of_int (round a))"
| "math_round x = x"

text \<open>
  \<open>_.sum\<close> of lodash adds the elements from left to right, starting with the first,
  and is 0 for an empty array.
\<close>

fun js_sum :: "number list \<Rightarrow> number" where
  "js_sum [] = Num 0"
| "js_sum (x # xs) = foldl js_add x xs"

subsection \<open>Data\<close>

datatype metric_type = Counter | Histogram | Meter | Watermark

record metric_def =
  name :: string
  mtype :: "metric_type option"
  displayName :: "string option"

record event_data =
  ts :: nat
  v :: number
  tags :: "(string \<times> string) list"

text \<open>
  The entries of \<open>_timers[name]\<close> are built by \<open>markStart\<close> and \<open>markEnd\<close> from array and
  object literals and are read back by property name, so they are kept as JavaScript
  values.
\<close>

datatype jsval =
    JUndefined
  | JNum nat
  | JStr string
  | JObj "(string \<times> jsval) list"
  | JArr "jsval list"

text \<open>
  Property read \<open>x.k\<close>. The program reads \<open>ts\<close>, \<open>sat\<close> and \<open>eat\<close> only; an array has none
  of them (its own properties are \<open>length\<close> and its indices).
\<close>

fun get_prop :: "jsval \<Rightarrow> string \<Rightarrow> jsval" where
  "get_prop (JObj kvs) k = (case map_of kvs k of Some x \<Rightarrow> x | None \<Rightarrow> JUndefined)"
| "get_prop (JArr xs) k = (if k = ''length'' then JNum (length xs) else JUndefined)"
| "get_prop x k = JUndefined"

fun truthy :: "jsval \<Rightarrow> bool" where
  "truthy JUndefined = False"
| "truthy (JNum n) = (n \<noteq> 0)"
| "truthy (JStr s) = (s \<noteq> [])"
| "truthy (JObj kvs) = True"
| "truthy (JArr xs) = True"

text \<open>
  \<open>x >= n\<close> and \<open>x <= n\<close> against a number: \<open>undefined\<close> converts to NaN and every
  comparison with NaN is false. The values compared are clock readings or
  \<open>undefined\<close>.
\<close>

fun js_ge :: "jsval \<Rightarrow> nat \<Rightarrow> bool" where
  "js_ge (JNum a) b = (b \<le> a)"
| "js_ge x b = False"

fun js_le :: "jsval \<Rightarrow> nat \<Rightarrow> bool" where
  "js_le (JNum a) b = (a \<le> b)"
| "js_le x b = False"

text \<open>The result of one metric in a period: \<open>{type, value, unit?}\<close>.\<close>

datatype jvalue =
    VNum number
  | VSummary (smin: number) (smax: number) (smedian: number) (sp95: number) (sp99: number)

record metric_summary =
  stype :: metric_type
  svalue :: jvalue
  sunit :: "string option"

text \<open>
  A period is the object literal \<open>{id, startsAt, endsAt, metrics}\<close>, to which the
  aggregator later assigns further properties by name. It is kept as an object:
  a property is an identifier, a number, the \<open>metrics\<close> dictionary or a summary.
\<close>

datatype pval =
    PStr string
  | PNum nat
  | PMetrics "(string \<times> metric_summary) list"
  | PSummary metric_summary

type_synonym period = "(string \<times> pval) list"

record state =
  aggregationIntervalMs :: nat
  aggregationLagMs :: nat
  events :: "(string \<times> event_data list) list"
  eventTypes :: "(string \<times> metric_type option) list"
  eventNames :: "(string \<times> string) list"
  timers :: "(string \<times> jsval list) list"
  periods :: "period list"
  nextPeriodBeginning :: "nat option"

datatype error = TypeError | HistogramError

text \<open>What the aggregator reads from a histogram after recording a list of values.\<close>

record hdr_stats =
  minNonZeroValue :: number
  maxValue :: number
  valueAtPercentile50 :: number
  valueAtPercentile95 :: number
  valueAtPercentile99 :: number

type_synonym hdr_lib = "number list \<Rightarrow> hdr_stats option"

subsection \<open>Construction and declaration\<close>

record opts =
  aggregationInterval :: "nat option"
  aggregationLag :: "nat option"

text \<open>
  The constructor (lines 24-50). \<open>x || 10\<close>: an absent or zero option falls back to ten
  seconds.
\<close>

definition or_ten :: "nat option \<Rightarrow> nat" where
  "or_ten x = (case x of None \<Rightarrow> 10 | Some n \<Rightarrow> if n = 0 then 10 else n)"

definition new_Metrics :: "opts \<Rightarrow> state" where
  "new_Metrics os =
     \<lparr> aggregationIntervalMs = or_ten (aggregationInterval os) * 1000,
       aggregationLagMs = or_ten (aggregationLag os) * 1000,
       events = [], eventTypes = [], eventNames = [], timers = [],
       periods = [], nextPeriodBeginning = None \<rparr>"

text \<open>\<open>create()\<close> is \<open>new Metrics({})\<close>.\<close>

definition create :: state where
  "create = new_Metrics \<lparr>aggregationInterval = None, aggregationLag = None\<rparr>"

text \<open>
  \<open>describeMetric\<close> (lines 63-83): the body of its \<open>forEach\<close>, for one definition \<open>o\<close>.
\<close>

definition describe_one :: "state \<Rightarrow> metric_def \<Rightarrow> state" where
  "describe_one s d =
     (let s1 = (if mtype d = Some Watermark
                then s\<lparr>timers := AList.update (name d) [] (timers s)\<rparr>
                else s\<lparr>events := AList.update (name d) [] (events s)\<rparr>)
      in s1\<lparr>eventTypes := AList.update (name d) (mtype d) (eventTypes s1),
            eventNames := AList.update (name d)
               (case displayName d of
                  None \<Rightarrow> name d
                | Some dn \<Rightarrow> if dn = [] then name d else dn) (eventNames s1)\<rparr>)"

text \<open>
  \<open>describeMetric\<close> takes a list of definitions, or a name and a type, which it makes
  into a list of one definition.
\<close>

definition describeMetric :: "state \<Rightarrow> metric_def list \<Rightarrow> state" where
  "describeMetric s defs = foldl describe_one s defs"

definition describeMetric1 :: "state \<Rightarrow> string \<Rightarrow> metric_type option \<Rightarrow> state" where
  "describeMetric1 s n t = describeMetric s [\<lparr>name = n, mtype = t, displayName = None\<rparr>]"

definition describeMetrics :: "state \<Rightarrow> metric_def list \<Rightarrow> state" where
  "describeMetrics s list = describeMetric s list"

subsection \<open>Recording\<close>

text \<open>
  \<open>event(name, value = 1, tags = {})\<close> (lines 89-100): an absent value is 1. A name
  without a sequence gets an empty one first. \<open>meter\<close>, \<open>histogram\<close> and \<open>counter\<close>
  (lines 203-213) call it.
\<close>

definition event :: "state \<Rightarrow> string \<Rightarrow> number option \<Rightarrow> (string \<times> string) list \<Rightarrow> nat \<Rightarrow> state" where
  "event s n val tgs now =
     (let es = (case map_of (events s) n of None \<Rightarrow> [] | Some xs \<Rightarrow> xs)
      in s\<lparr>events := AList.update n
             (es @ [\<lparr>ts = now, v = (case val of None \<Rightarrow> Num 1 | Some x \<Rightarrow> x), tags = tgs\<rparr>])
             (events s)\<rparr>)"

definition meter :: "state \<Rightarrow> string \<Rightarrow> nat \<Rightarrow> state" where
  "meter s n now = event s n None [] now"

definition histogram :: "state \<Rightarrow> string \<Rightarrow> number \<Rightarrow> nat \<Rightarrow> state" where
  "histogram s n val now = event s n (Some val) [] now"

definition counter :: "state \<Rightarrow> string \<Rightarrow> number option \<Rightarrow> nat \<Rightarrow> state" where
  "counter s n val now = event s n (Some (case val of None \<Rightarrow> Num 1 | Some x \<Rightarrow> x)) [] now"

text \<open>
  \<open>markStart\<close> pushes the array \<open>[{sat: Date.now(), id: id}]\<close>, \<open>markEnd\<close> the array
  \<open>[{eat: Date.now(), id: id}]\<close> (lines 215-228): the argument of \<open>push\<close> is an array
  literal that holds the object.
\<close>

definition push_timer :: "state \<Rightarrow> string \<Rightarrow> jsval \<Rightarrow> state" where
  "push_timer s n x =
     (let xs = (case map_of (timers s) n of None \<Rightarrow> [] | Some ys \<Rightarrow> ys)
      in s\<lparr>timers := AList.update n (xs @ [x]) (timers s)\<rparr>)"

definition markStart :: "state \<Rightarrow> string \<Rightarrow> string \<Rightarrow> nat \<Rightarrow> state" where
  "markStart s n i now = push_timer s n (JArr [JObj [(''sat'', JNum now), (''id'', JStr i)]])"

definition markEnd :: "state \<Rightarrow> string \<Rightarrow> string \<Rightarrow> nat \<Rightarrow> state" where
  "markEnd s n i now = push_timer s n (JArr [JObj [(''eat'', JNum now), (''id'', JStr i)]])"

subsection \<open>Queries and pruning\<close>

definition listEvents :: "state \<Rightarrow> string list" where
  "listEvents s = map fst (events s)"

definition getEventType :: "state \<Rightarrow> string \<Rightarrow> metric_type option" where
  "getEventType s n = (case map_of (eventTypes s) n of None \<Rightarrow> None | Some t \<Rightarrow> t)"

text \<open>
  The four functions below (lines 115-161) call a method of \<open>this._events[name]\<close> or
  \<open>this._timers[name]\<close>, which raises a TypeError when the name has no sequence.
\<close>

definition getEventData :: "state \<Rightarrow> string \<Rightarrow> nat \<Rightarrow> nat \<Rightarrow> error + event_data list" where
  "getEventData s n gte lte =
     (case map_of (events s) n of
        None \<Rightarrow> Inl TypeError
      | Some es \<Rightarrow> Inr (filter (\<lambda>e. gte \<le> ts e \<and> ts e \<le> lte) es))"

text \<open>The parameters of \<open>getTimerData\<close> are declared in the order \<open>(name, lte, gte)\<close>.\<close>

definition getTimerData :: "state \<Rightarrow> string \<Rightarrow> nat \<Rightarrow> nat \<Rightarrow> error + jsval list" where
  "getTimerData s n lte gte =
     (case map_of (timers s) n of
        None \<Rightarrow> Inl TypeError
      | Some xs \<Rightarrow>
          Inr (filter (\<lambda>e. js_ge (get_prop e ''ts'') gte \<and> js_le (get_prop e ''ts'') lte) xs))"

definition deleteEventData :: "state \<Rightarrow> string \<Rightarrow> nat \<Rightarrow> nat \<Rightarrow> error + state" where
  "deleteEventData s n gte lte =
     (case map_of (events s) n of
        None \<Rightarrow> Inl TypeError
      | Some es \<Rightarrow> Inr (s\<lparr>events := AList.update n (filter (\<lambda>e. lte < ts e) es) (events s)\<rparr>))"

text \<open>The test \<open>e.k && e.k <= lte && e.k >= gte\<close> of \<open>deleteTimerData\<close>.\<close>

definition in_range :: "jsval \<Rightarrow> string \<Rightarrow> nat \<Rightarrow> nat \<Rightarrow> bool" where
  "in_range e k gte lte =
     (truthy (get_prop e k) \<and> js_le (get_prop e k) lte \<and> js_ge (get_prop e k) gte)"

text \<open>
  \<open>deleteTimerData\<close> counts the marks in range, then keeps the entries for which the
  filter callback returns \<open>true\<close> (it returns \<open>undefined\<close> otherwise). The final
  \<open>[].concat\<close> copies the list.
\<close>

definition deleteTimerData :: "state \<Rightarrow> string \<Rightarrow> nat \<Rightarrow> nat \<Rightarrow> error + state" where
  "deleteTimerData s n gte lte =
     (case map_of (timers s) n of
        None \<Rightarrow> Inl TypeError
      | Some xs \<Rightarrow>
          (let eats = length (filter (\<lambda>e. in_range e ''eat'' gte lte) xs);
               sats = length (filter (\<lambda>e. in_range e ''sat'' gte lte) xs);
               kept = filter (\<lambda>e. in_range e ''eat'' gte lte \<or> in_range e ''sat'' gte lte) xs
           in Inr (s\<lparr>timers := AList.update n (if eats < sats then [] @ kept else kept)
                                  (timers s)\<rparr>)))"

text \<open>\<open>Infinity\<close> is the only non-finite number the aggregator handles.\<close>

datatype jnum = Fin nat | Infinity

fun jmin :: "jnum \<Rightarrow> jnum \<Rightarrow> jnum" where
  "jmin (Fin a) (Fin b) = Fin (min a b)"
| "jmin (Fin a) Infinity = Fin a"
| "jmin Infinity b = b"

text \<open>
  \<open>getEarliestEventTimestamp\<close> (lines 186-201): the timestamp of the first element of
  every non-empty sequence, and the minimum of these, starting from \<open>Infinity\<close>.
\<close>

definition getEarliestEventTimestamp :: "state \<Rightarrow> jnum" where
  "getEarliestEventTimestamp s =
     foldl jmin Infinity
       (map (\<lambda>(n, es). case es of [] \<Rightarrow> Infinity | e # _ \<Rightarrow> Fin (ts e)) (events s))"

definition listPeriods :: "state \<Rightarrow> pval option list" where
  "listPeriods s = map (\<lambda>p. map_of p ''id'') (periods s)"

definition getPeriod :: "state \<Rightarrow> string \<Rightarrow> period option" where
  "getPeriod s i = find (\<lambda>p. map_of p ''id'' = Some (PStr i)) (periods s)"

text \<open>
  \<open>listPeriods\<close> and \<open>getPeriod\<close> (lines 230-250) give their result to the callback or
  the promise; \<open>getLastPeriod(cb)\<close> (lines 252-254) is \<open>return cb(null, {})\<close>: the
  callback gets an empty object.
\<close>

definition getLastPeriod :: "state \<Rightarrow> period" where
  "getLastPeriod s = []"

subsection \<open>The aggregator\<close>

text \<open>
  \<open>round(number, decimals)\<close> (lines 387-390): \<open>m = Math.pow(10, decimals)\<close>, then
  \<open>Math.round(number * m) / m\<close>. The product and the quotient are rounded to binary64;
  \<open>Math.round\<close> is exact. The aggregator calls it with \<open>decimals = 2\<close>, where \<open>m\<close> is 100.
\<close>

definition round_js :: "number \<Rightarrow> nat \<Rightarrow> number" where
  "round_js number decimals =
     (let m = fl (10 ^ decimals) in js_div (math_round (js_mul number m)) m)"

text \<open>
  The first loop of \<open>defaultAggregator\<close> (lines 308-353), for one name: the summary of its events in \<open>[earliest, latest]\<close> is
  assigned to \<open>period.metrics[name]\<close> when the type is counter, meter or histogram, and
  the events up to \<open>latest\<close> are deleted whatever the type. \<open>ms\<close> is the object
  \<open>period.metrics\<close>.
\<close>

fun aggregate_event ::
  "hdr_lib \<Rightarrow> nat \<Rightarrow> nat \<Rightarrow> string \<Rightarrow> state \<times> (string \<times> metric_summary) list
     \<Rightarrow> error + state \<times> (string \<times> metric_summary) list" where
  "aggregate_event hdr earliest latest n (s, ms) =
     (let eventType = getEventType s n in
      (case getEventData s n earliest latest of
         Inl err \<Rightarrow> Inl err
       | Inr eventStream \<Rightarrow>
          (case
             (if eventType = Some Counter then
                Inr (AList.update n
                       \<lparr>stype = Counter, svalue = VNum (js_sum (map v eventStream)),
                        sunit = None\<rparr> ms)
              else if eventType = Some Meter then
                Inr (AList.update n
                       \<lparr>stype = Meter,
                        svalue = VNum (round_js
                                   (js_div (Num (of_nat (length eventStream)))
                                      (js_div (Num (of_nat (aggregationIntervalMs s)))
                                         (Num 1000))) 2),
                        sunit = Some ''second''\<rparr> ms)
              else if eventType = Some Histogram then
                (case hdr (map v eventStream) of
                   None \<Rightarrow> Inl HistogramError
                 | Some h \<Rightarrow>
                     Inr (AList.update n
                            \<lparr>stype = Histogram,
                             svalue = VSummary (round_js (minNonZeroValue h) 2)
                                        (round_js (maxValue h) 2)
                                        (round_js (valueAtPercentile50 h) 2)
                                        (round_js (valueAtPercentile95 h) 2)
                                        (round_js (valueAtPercentile99 h) 2),
                             sunit = None\<rparr> ms))
              else Inr ms)
           of
             Inl err \<Rightarrow> Inl err
           | Inr ms' \<Rightarrow>
               (case deleteEventData s n earliest latest of
                  Inl err \<Rightarrow> Inl err
                | Inr s' \<Rightarrow> Inr (s', ms')))))"

fun aggregate_events ::
  "hdr_lib \<Rightarrow> nat \<Rightarrow> nat \<Rightarrow> string list \<Rightarrow> state \<times> (string \<times> metric_summary) list
     \<Rightarrow> error + state \<times> (string \<times> metric_summary) list" where
  "aggregate_events hdr earliest latest [] acc = Inr acc"
| "aggregate_events hdr earliest latest (n # ns) acc =
     (case aggregate_event hdr earliest latest n acc of
        Inl err \<Rightarrow> Inl err
      | Inr acc' \<Rightarrow> aggregate_events hdr earliest latest ns acc')"

text \<open>The scan of the second loop (lines 363-372): the pair is \<open>(high, c)\<close>.\<close>

definition mark_step :: "int \<times> int \<Rightarrow> jsval \<Rightarrow> int \<times> int" where
  "mark_step hc e =
     (case hc of (high, c) \<Rightarrow>
        if truthy (get_prop e ''sat'') then
          (if high < c + 1 then (c + 1, c + 1) else (high, c + 1))
        else if truthy (get_prop e ''eat'') then (high, c - 1)
        else (high, c))"

text \<open>
  The second loop (lines 358-380), for one name: the scan runs over \<open>getTimerData(name, earliest,
  latest)\<close>, the result is assigned to \<open>period[name]\<close>, and \<open>deleteTimerData\<close> is
  called.
\<close>

fun aggregate_timer ::
  "nat \<Rightarrow> nat \<Rightarrow> string \<Rightarrow> state \<times> period \<Rightarrow> error + state \<times> period" where
  "aggregate_timer earliest latest n (s, p) =
     (case getTimerData s n earliest latest of
        Inl err \<Rightarrow> Inl err
      | Inr eventStream \<Rightarrow>
          (let high = fst (foldl mark_step (0, 0) eventStream);
               p' = AList.update n
                      (PSummary \<lparr>stype = Watermark, svalue = VNum (Num (of_int high)),
                                 sunit = None\<rparr>) p
           in (case deleteTimerData s n earliest latest of
                 Inl err \<Rightarrow> Inl err
               | Inr s' \<Rightarrow> Inr (s', p'))))"

fun aggregate_timers ::
  "nat \<Rightarrow> nat \<Rightarrow> string list \<Rightarrow> state \<times> period \<Rightarrow> error + state \<times> period" where
  "aggregate_timers earliest latest [] acc = Inr acc"
| "aggregate_timers earliest latest (n # ns) acc =
     (case aggregate_timer earliest latest n acc of
        Inl err \<Rightarrow> Inl err
      | Inr acc' \<Rightarrow> aggregate_timers earliest latest ns acc')"

text \<open>
  \<open>this._nextPeriodBeginning || this.getEarliestEventTimestamp()\<close> (line 269): the cursor
  when it is set and not zero. \<open>defaultAggregator\<close> (lines 266-385) returns early when
  nothing is pending or the lag has not passed; otherwise it moves the cursor, runs
  the two loops on the period literal and appends the period.
\<close>

definition window_start :: "state \<Rightarrow> jnum" where
  "window_start s =
     (case nextPeriodBeginning s of
        None \<Rightarrow> getEarliestEventTimestamp s
      | Some n \<Rightarrow> if n = 0 then getEarliestEventTimestamp s else Fin n)"

definition defaultAggregator :: "hdr_lib \<Rightarrow> state \<Rightarrow> nat \<Rightarrow> string \<Rightarrow> error + state" where
  "defaultAggregator hdr s now uid =
     (case window_start s of
        Infinity \<Rightarrow> Inr s
      | Fin earliest \<Rightarrow>
          (let latest = earliest + aggregationIntervalMs s;
               withLag = latest + aggregationLagMs s
           in if now < withLag then Inr s
              else
                (let s1 = s\<lparr>nextPeriodBeginning := Some (latest + 1)\<rparr> in
                 case aggregate_events hdr earliest latest (listEvents s1) (s1, []) of
                   Inl err \<Rightarrow> Inl err
                 | Inr (s2, ms) \<Rightarrow>
                     (case aggregate_timers earliest latest (map fst (timers s2))
                             (s2, [(''id'', PStr uid), (''startsAt'', PNum earliest),
                                   (''endsAt'', PNum latest), (''metrics'', PMetrics ms)]) of
                        Inl err \<Rightarrow> Inl err
                      | Inr (s3, p) \<Rightarrow> Inr (s3\<lparr>periods := periods s3 @ [p]\<rparr>)))))"

subsection \<open>Runs\<close>

text \<open>
  The calls a program makes on one \<open>Metrics\<close> object, with the clock reading of each,
  and the ticks of the aggregation timer. An exception ends the run.
\<close>

datatype call =
    DescribeMetric "metric_def list"
  | Event string "number option" "(string \<times> string) list" nat
  | MarkStart string string nat
  | MarkEnd string string nat
  | Tick nat string

fun step :: "hdr_lib \<Rightarrow> state \<Rightarrow> call \<Rightarrow> error + state" where
  "step hdr s (DescribeMetric defs) = Inr (describeMetric s defs)"
| "step hdr s (Event n val tgs now) = Inr (event s n val tgs now)"
| "step hdr s (MarkStart n i now) = Inr (markStart s n i now)"
| "step hdr s (MarkEnd n i now) = Inr (markEnd s n i now)"
| "step hdr s (Tick now uid) = defaultAggregator hdr s now uid"

fun run :: "hdr_lib \<Rightarrow> state \<Rightarrow> call list \<Rightarrow> error + state" where
  "run hdr s [] = Inr s"
| "run hdr s (x # xs) = (case step hdr s x of Inl err \<Rightarrow> Inl err | Inr s' \<Rightarrow> run hdr s' xs)"

section \<open>Notions used in the statements and proofs\<close>

text \<open>An entry that is an array, as every entry pushed by \<open>markStart\<close> and \<open>markEnd\<close> is.\<close>

fun is_arr :: "jsval \<Rightarrow> bool" where
  "is_arr (JArr xs) = True"
| "is_arr x = False"

definition arr_timers :: "state \<Rightarrow> bool" where
  "arr_timers s \<longleftrightarrow> (\<forall>n xs. map_of (timers s) n = Some xs \<longrightarrow> (\<forall>x\<in>set xs. is_arr x))"

text \<open>
  What holds of every store reached from a new one: the keys of \<open>_events\<close> are
  distinct, the timer entries are arrays, and a name whose declared type is counter,
  meter or histogram has an event sequence.
\<close>

definition wf_state :: "state \<Rightarrow> bool" where
  "wf_state s \<longleftrightarrow>
     distinct (map fst (events s)) \<and> arr_timers s \<and>
     (\<forall>n. getEventType s n \<noteq> None \<and> getEventType s n \<noteq> Some Watermark
          \<longrightarrow> n \<in> fst ` set (events s))"

text \<open>The first loop changes \<open>_events\<close> only and keeps its keys; the second loop does the same to \<open>_timers\<close>.\<close>

definition frame_ev :: "state \<Rightarrow> state \<Rightarrow> bool" where
  "frame_ev s s' \<longleftrightarrow> s' = s\<lparr>events := events s'\<rparr> \<and> map fst (events s') = map fst (events s)"

definition frame_tm :: "state \<Rightarrow> state \<Rightarrow> bool" where
  "frame_tm s s' \<longleftrightarrow> s' = s\<lparr>timers := timers s'\<rparr> \<and> map fst (timers s') = map fst (timers s)"

text \<open>The events of a name whose timestamps lie in \<open>[e, l]\<close>.\<close>

definition window_events :: "state \<Rightarrow> string \<Rightarrow> nat \<Rightarrow> nat \<Rightarrow> event_data list" where
  "window_events s n e l =
     filter (\<lambda>x. e \<le> ts x \<and> ts x \<le> l) (case map_of (events s) n of None \<Rightarrow> [] | Some es \<Rightarrow> es)"

text \<open>
  The window bounds of a list of periods: every period spans the interval \<open>I\<close>, and
  each starts one millisecond after the end of the one before it. The cursor agrees
  with the last period.
\<close>

definition windows_ok :: "nat \<Rightarrow> period list \<Rightarrow> bool" where
  "windows_ok I ps \<longleftrightarrow>
     (\<forall>p\<in>set ps. \<exists>a. map_of p ''startsAt'' = Some (PNum a) \<and>
                       map_of p ''endsAt'' = Some (PNum (a + I))) \<and>
     (\<forall>i. Suc i < length ps \<longrightarrow>
        (\<exists>b. map_of (ps ! i) ''endsAt'' = Some (PNum b) \<and>
             map_of (ps ! Suc i) ''startsAt'' = Some (PNum (b + 1))))"

definition cursor_ok :: "state \<Rightarrow> bool" where
  "cursor_ok s \<longleftrightarrow>
     (case nextPeriodBeginning s of
        None \<Rightarrow> periods s = []
      | Some n \<Rightarrow> n \<noteq> 0 \<and> periods s \<noteq> [] \<and>
                  map_of (last (periods s)) ''endsAt'' = Some (PNum (n - 1)))"

text \<open>
  The watermark as the specification words it, for comparison with the aggregator: of
  the start and stop marks whose timestamps lie in the window, taken in timestamp
  order, a running counter goes up on each start and down on each stop, and the
  result is the greatest value the counter reaches.
\<close>

datatype spec_mark = Start nat | Stop nat

fun spec_mark_time :: "spec_mark \<Rightarrow> nat" where
  "spec_mark_time (Start t) = t"
| "spec_mark_time (Stop t) = t"

fun spec_scan :: "int \<times> int \<Rightarrow> spec_mark \<Rightarrow> int \<times> int" where
  "spec_scan (high, c) (Start t) = (max high (c + 1), c + 1)"
| "spec_scan (high, c) (Stop t) = (high, c - 1)"

definition spec_watermark :: "nat \<Rightarrow> nat \<Rightarrow> spec_mark list \<Rightarrow> int" where
  "spec_watermark earliest latest ms =
     fst (foldl spec_scan (0, 0)
            (sort_key spec_mark_time
               (filter (\<lambda>m. earliest \<le> spec_mark_time m \<and> spec_mark_time m \<le> latest) ms)))"

subsection \<open>Example runs\<close>

text \<open>
  The examples declare no histogram, so the histogram library is never called in
  them. \<open>basic_ops\<close> follows the first test of \<open>metrics.test.js\<close> (an interval and a lag
  of two seconds, a counter recorded twice, a counter never recorded, a meter);
  \<open>watermark_ops\<close> records three overlapping start/stop pairs, of which at most two
  are open at the same time, and one event of an undeclared name. In the last three
  runs a watermark metric bears the name of a property of the period object.
\<close>

definition hdr_unused :: hdr_lib where
  "hdr_unused xs = None"

definition basic_opts :: opts where
  "basic_opts = \<lparr>aggregationInterval = Some 2, aggregationLag = Some 2\<rparr>"

definition basic_ops :: "call list" where
  "basic_ops =
     [DescribeMetric [\<lparr>name = ''requests'', mtype = Some Counter, displayName = None\<rparr>],
      DescribeMetric [\<lparr>name = ''code200'', mtype = Some Counter, displayName = None\<rparr>],
      DescribeMetric [\<lparr>name = ''rate'', mtype = Some Meter, displayName = None\<rparr>],
      Event ''requests'' (Some (Num 1)) [] 1000,
      Event ''requests'' (Some (Num 2)) [] 1001,
      Event ''rate'' None [] 1002,
      Event ''rate'' None [] 1003,
      Event ''rate'' None [] 3500,
      MarkStart ''busy'' ''a'' 1004,
      MarkEnd ''busy'' ''a'' 4000]"

definition basic_state :: state where
  "basic_state =
     \<lparr>aggregationIntervalMs = 2000, aggregationLagMs = 2000,
      events =
        [(''requests'', [\<lparr>ts = 1000, v = Num 1, tags = []\<rparr>, \<lparr>ts = 1001, v = Num 2, tags = []\<rparr>]),
         (''code200'', []),
         (''rate'', [\<lparr>ts = 1002, v = Num 1, tags = []\<rparr>, \<lparr>ts = 1003, v = Num 1, tags = []\<rparr>,
                     \<lparr>ts = 3500, v = Num 1, tags = []\<rparr>])],
      eventTypes =
        [(''requests'', Some Counter), (''code200'', Some Counter), (''rate'', Some Meter)],
      eventNames =
        [(''requests'', ''requests''), (''code200'', ''code200''), (''rate'', ''rate'')],
      timers =
        [(''busy'', [JArr [JObj [(''sat'', JNum 1004), (''id'', JStr ''a'')]],
                     JArr [JObj [(''eat'', JNum 4000), (''id'', JStr ''a'')]]])],
      periods = [], nextPeriodBeginning = None\<rparr>"

definition basic_period :: period where
  "basic_period =
     [(''id'', PStr ''p1''), (''startsAt'', PNum 1000), (''endsAt'', PNum 3000),
      (''metrics'', PMetrics
         [(''requests'', \<lparr>stype = Counter, svalue = VNum (Num 3), sunit = None\<rparr>),
          (''code200'', \<lparr>stype = Counter, svalue = VNum (Num 0), sunit = None\<rparr>),
          (''rate'', \<lparr>stype = Meter, svalue = VNum (Num 1), sunit = Some ''second''\<rparr>)]),
      (''busy'', PSummary \<lparr>stype = Watermark, svalue = VNum (Num 0), sunit = None\<rparr>)]"

definition basic_closed :: state where
  "basic_closed =
     basic_state\<lparr>events := [(''requests'', []), (''code200'', []),
                              (''rate'', [\<lparr>ts = 3500, v = Num 1, tags = []\<rparr>])],
                  timers := [(''busy'', [])],
                  periods := [basic_period],
                  nextPeriodBeginning := Some 3001\<rparr>"

definition requests_decl :: metric_def where
  "requests_decl = \<lparr>name = ''requests'', mtype = Some Counter, displayName = None\<rparr>"

definition watermark_ops :: "call list" where
  "watermark_ops =
     [DescribeMetric [\<lparr>name = ''concurrency'', mtype = Some Watermark, displayName = None\<rparr>],
      Event ''hits'' (Some (Num 5)) [] 10000,
      MarkStart ''concurrency'' ''a'' 10000,
      MarkStart ''concurrency'' ''b'' 11000,
      MarkEnd ''concurrency'' ''a'' 11500,
      MarkStart ''concurrency'' ''c'' 12000,
      MarkEnd ''concurrency'' ''b'' 13000,
      MarkEnd ''concurrency'' ''c'' 14000,
      Tick 30000 ''p1'']"

definition watermark_period :: period where
  "watermark_period =
     [(''id'', PStr ''p1''), (''startsAt'', PNum 10000), (''endsAt'', PNum 20000),
      (''metrics'', PMetrics []),
      (''concurrency'', PSummary \<lparr>stype = Watermark, svalue = VNum (Num 0), sunit = None\<rparr>)]"

definition watermark_closed :: state where
  "watermark_closed =
     \<lparr>aggregationIntervalMs = 10000, aggregationLagMs = 10000,
      events = [(''hits'', [])],
      eventTypes = [(''concurrency'', Some Watermark)],
      eventNames = [(''concurrency'', ''concurrency'')],
      timers = [(''concurrency'', [])],
      periods = [watermark_period],
      nextPeriodBeginning = Some 20001\<rparr>"

definition bounds_clash_ops :: "call list" where
  "bounds_clash_ops =
     [DescribeMetric [\<lparr>name = ''endsAt'', mtype = Some Watermark, displayName = None\<rparr>],
      Event ''hits'' None [] 10000,
      Tick 30000 ''p1'',
      Tick 50001 ''p2'']"

definition counter_clash_ops :: "call list" where
  "counter_clash_ops =
     [DescribeMetric [\<lparr>name = ''requests'', mtype = Some Counter, displayName = None\<rparr>],
      Event ''requests'' (Some (Num 1)) [] 1000,
      Event ''requests'' (Some (Num 2)) [] 1001,
      MarkStart ''metrics'' ''a'' 1002,
      Tick 5000 ''p1'']"

definition meter_clash_ops :: "call list" where
  "meter_clash_ops =
     [DescribeMetric [\<lparr>name = ''rate'', mtype = Some Meter, displayName = None\<rparr>,
                      \<lparr>name = ''metrics'', mtype = Some Watermark, displayName = None\<rparr>],
      Event ''rate'' None [] 1000,
      Event ''rate'' None [] 1001,
      Tick 5000 ''p1'']"

section \<open>Lemmas\<close>

lemma run_append:
  "run hdr s (xs @ ys) = (case run hdr s xs of Inl err \<Rightarrow> Inl err | Inr s' \<Rightarrow> run hdr s' ys)"
  by (induction xs arbitrary: s) (auto split: sum.splits)

lemma run_invariant:
  assumes "run hdr s0 xs = Inr s" and "P s0"
    and "\<And>a x b. P a \<Longrightarrow> step hdr a x = Inr b \<Longrightarrow> P b"
  shows "P s"
  using assms(1,2)
proof (induction xs arbitrary: s0)
  case Nil
  then show ?case by simp
next
  case (Cons x xs)
  then show ?case using assms(3) by (auto split: sum.splits)
qed

text \<open>Frame facts of the operations that record or declare.\<close>

lemma foldl_describe_frame:
  "periods (foldl describe_one s ds) = periods s \<and>
   nextPeriodBeginning (foldl describe_one s ds) = nextPeriodBeginning s \<and>
   aggregationIntervalMs (foldl describe_one s ds) = aggregationIntervalMs s \<and>
   aggregationLagMs (foldl describe_one s ds) = aggregationLagMs s"
  by (induction ds arbitrary: s) (simp_all add: describe_one_def Let_def)

lemma aggregate_event_Inr:
  assumes "aggregate_event hdr e l n (s, ms) = Inr (s', ms')"
  shows "\<exists>es. map_of (events s) n = Some es \<and>
           s' = s\<lparr>events := AList.update n (filter (\<lambda>x. l < ts x) es) (events s)\<rparr> \<and>
           (getEventType s n = Some Counter \<longrightarrow>
              ms' = AList.update n \<lparr>stype = Counter,
                      svalue = VNum (js_sum (map v (filter (\<lambda>x. e \<le> ts x \<and> ts x \<le> l) es))),
                      sunit = None\<rparr> ms) \<and>
           (getEventType s n = Some Meter \<longrightarrow>
              ms' = AList.update n \<lparr>stype = Meter,
                      svalue = VNum (round_js
      (js_div (Num (of_nat (length (filter (\<lambda>x. e \<le> ts x \<and> ts x \<le> l) es))))
         (js_div (Num (of_nat (aggregationIntervalMs s))) (Num 1000))) 2),
                      sunit = Some ''second''\<rparr> ms) \<and>
           (getEventType s n = None \<or> getEventType s n = Some Watermark \<longrightarrow> ms' = ms) \<and>
           (\<forall>k. k \<noteq> n \<longrightarrow> map_of ms' k = map_of ms k)"
  using assms
  by (auto simp: getEventData_def deleteEventData_def Let_def update_conv'
           split: option.splits if_splits sum.splits)

lemma aggregate_timer_Inr:
  assumes "aggregate_timer e l n (s, p) = Inr (s', p')"
  shows "\<exists>xs. map_of (timers s) n = Some xs \<and>
           s' = s\<lparr>timers := AList.update n
                   (filter (\<lambda>x. in_range x ''eat'' e l \<or> in_range x ''sat'' e l) xs) (timers s)\<rparr> \<and>
           p' = AList.update n (PSummary \<lparr>stype = Watermark,
                  svalue = VNum (Num (of_int (fst (foldl mark_step (0, 0)
                     (filter (\<lambda>x. js_ge (get_prop x ''ts'') l \<and> js_le (get_prop x ''ts'') e) xs))))),
                  sunit = None\<rparr>) p"
  using assms
  by (auto simp: getTimerData_def deleteTimerData_def Let_def split: option.splits sum.splits)

lemma frame_ev_refl: "frame_ev s s"
  by (simp add: frame_ev_def)

lemma frame_ev_trans: "frame_ev a b \<Longrightarrow> frame_ev b c \<Longrightarrow> frame_ev a c"
  unfolding frame_ev_def
  by (metis (no_types, lifting) state.surjective state.update_convs(3))

lemma update_same_keys: "map_of al k = Some x \<Longrightarrow> map fst (AList.update k y al) = map fst al"
  by (simp add: update_keys map_of_eq_None_iff domI dom_map_of_conv_image_fst[symmetric])

lemma aggregate_event_frame:
  assumes "aggregate_event hdr e l n (s, ms) = Inr (s', ms')"
  shows "frame_ev s s'"
proof -
  from aggregate_event_Inr[OF assms] obtain es where
    "map_of (events s) n = Some es"
    "s' = s\<lparr>events := AList.update n (filter (\<lambda>x. l < ts x) es) (events s)\<rparr>"
    by blast
  then show ?thesis by (simp add: frame_ev_def update_same_keys)
qed

lemma aggregate_events_frame:
  "aggregate_events hdr e l ns (s, ms) = Inr (s', ms') \<Longrightarrow> frame_ev s s'"
proof (induction ns arbitrary: s ms)
  case Nil
  then show ?case by (simp add: frame_ev_refl)
next
  case (Cons a ns)
  from Cons.prems obtain s1 ms1 where
    a: "aggregate_event hdr e l a (s, ms) = Inr (s1, ms1)"
    and r: "aggregate_events hdr e l ns (s1, ms1) = Inr (s', ms')"
    by (auto split: sum.splits)
  show ?case using aggregate_event_frame[OF a] Cons.IH[OF r] by (rule frame_ev_trans)
qed

lemma frame_ev_type: "frame_ev s s' \<Longrightarrow> getEventType s' n = getEventType s n"
  unfolding frame_ev_def getEventType_def
  by (metis state.select_convs(4) state.surjective state.update_convs(3))

lemma frame_ev_interval: "frame_ev s s' \<Longrightarrow> aggregationIntervalMs s' = aggregationIntervalMs s"
  unfolding frame_ev_def
  by (metis state.select_convs(1) state.surjective state.update_convs(3))

lemma aggregate_events_lookup:
  "aggregate_events hdr e l ns (s, ms) = Inr (s', ms') \<Longrightarrow>
   map_of (events s') n =
     (if n \<in> set ns then map_option (filter (\<lambda>x. l < ts x)) (map_of (events s) n)
      else map_of (events s) n)"
proof (induction ns arbitrary: s ms)
  case Nil
  then show ?case by simp
next
  case (Cons a ns)
  from Cons.prems obtain s1 ms1 where
    a: "aggregate_event hdr e l a (s, ms) = Inr (s1, ms1)"
    and r: "aggregate_events hdr e l ns (s1, ms1) = Inr (s', ms')"
    by (auto split: sum.splits)
  from aggregate_event_Inr[OF a] obtain es where
    es: "map_of (events s) a = Some es"
    and s1: "s1 = s\<lparr>events := AList.update a (filter (\<lambda>x. l < ts x) es) (events s)\<rparr>"
    by blast
  have "map_of (events s1) n = (if n = a then Some (filter (\<lambda>x. l < ts x) es) else map_of (events s) n)"
    by (simp add: s1 update_conv')
  with Cons.IH[OF r] es show ?case by auto
qed

lemma aggregate_events_other:
  "aggregate_events hdr e l ns (s, ms) = Inr (s', ms') \<Longrightarrow> k \<notin> set ns \<Longrightarrow>
   map_of ms' k = map_of ms k"
proof (induction ns arbitrary: s ms)
  case Nil
  then show ?case by simp
next
  case (Cons a ns)
  from Cons.prems obtain s1 ms1 where
    a: "aggregate_event hdr e l a (s, ms) = Inr (s1, ms1)"
    and r: "aggregate_events hdr e l ns (s1, ms1) = Inr (s', ms')"
    by (auto split: sum.splits)
  from aggregate_event_Inr[OF a] Cons.prems(2) have "map_of ms1 k = map_of ms k" by auto
  with Cons.IH[OF r] Cons.prems(2) show ?case by simp
qed

text \<open>The entry the first loop writes for a counter or a meter.\<close>

lemma aggregate_events_counter:
  "aggregate_events hdr e l ns (s, ms) = Inr (s', ms') \<Longrightarrow> distinct ns \<Longrightarrow> n \<in> set ns \<Longrightarrow>
   getEventType s n = Some Counter \<Longrightarrow>
   map_of ms' n = Some \<lparr>stype = Counter,
       svalue = VNum (js_sum (map v (window_events s n e l))), sunit = None\<rparr>"
proof (induction ns arbitrary: s ms)
  case Nil
  then show ?case by simp
next
  case (Cons a ns)
  from Cons.prems(1) obtain s1 ms1 where
    a: "aggregate_event hdr e l a (s, ms) = Inr (s1, ms1)"
    and r: "aggregate_events hdr e l ns (s1, ms1) = Inr (s', ms')"
    by (auto split: sum.splits)
  from aggregate_event_Inr[OF a] obtain es where
    es: "map_of (events s) a = Some es"
    and s1: "s1 = s\<lparr>events := AList.update a (filter (\<lambda>x. l < ts x) es) (events s)\<rparr>"
    and c: "getEventType s a = Some Counter \<longrightarrow>
              ms1 = AList.update a \<lparr>stype = Counter,
                      svalue = VNum (js_sum (map v (filter (\<lambda>x. e \<le> ts x \<and> ts x \<le> l) es))),
                      sunit = None\<rparr> ms"
    by blast
  show ?case
  proof (cases "n = a")
    case True
    with Cons.prems(2) have "n \<notin> set ns" by simp
    from aggregate_events_other[OF r this] have "map_of ms' n = map_of ms1 n" .
    with c True Cons.prems(4) es show ?thesis
      by (simp add: update_conv' window_events_def)
  next
    case False
    with Cons.prems have n: "n \<in> set ns" and d: "distinct ns" by simp_all
    have t: "getEventType s1 n = Some Counter"
      using frame_ev_type[OF aggregate_event_frame[OF a]] Cons.prems(4) by simp
    have w: "window_events s1 n e l = window_events s n e l"
      using False by (simp add: window_events_def s1 update_conv')
    from Cons.IH[OF r d n t] w show ?thesis by simp
  qed
qed

lemma aggregate_events_meter:
  "aggregate_events hdr e l ns (s, ms) = Inr (s', ms') \<Longrightarrow> distinct ns \<Longrightarrow> n \<in> set ns \<Longrightarrow>
   getEventType s n = Some Meter \<Longrightarrow>
   map_of ms' n = Some \<lparr>stype = Meter,
       svalue = VNum (round_js
      (js_div (Num (of_nat (length (window_events s n e l))))
         (js_div (Num (of_nat (aggregationIntervalMs s))) (Num 1000))) 2),
       sunit = Some ''second''\<rparr>"
proof (induction ns arbitrary: s ms)
  case Nil
  then show ?case by simp
next
  case (Cons a ns)
  from Cons.prems(1) obtain s1 ms1 where
    a: "aggregate_event hdr e l a (s, ms) = Inr (s1, ms1)"
    and r: "aggregate_events hdr e l ns (s1, ms1) = Inr (s', ms')"
    by (auto split: sum.splits)
  from aggregate_event_Inr[OF a] obtain es where
    es: "map_of (events s) a = Some es"
    and s1: "s1 = s\<lparr>events := AList.update a (filter (\<lambda>x. l < ts x) es) (events s)\<rparr>"
    and c: "getEventType s a = Some Meter \<longrightarrow>
              ms1 = AList.update a \<lparr>stype = Meter,
                      svalue = VNum (round_js
      (js_div (Num (of_nat (length (filter (\<lambda>x. e \<le> ts x \<and> ts x \<le> l) es))))
         (js_div (Num (of_nat (aggregationIntervalMs s))) (Num 1000))) 2),
                      sunit = Some ''second''\<rparr> ms"
    by blast
  show ?case
  proof (cases "n = a")
    case True
    with Cons.prems(2) have "n \<notin> set ns" by simp
    from aggregate_events_other[OF r this] have "map_of ms' n = map_of ms1 n" .
    with c True Cons.prems(4) es show ?thesis
      by (simp add: update_conv' window_events_def)
  next
    case False
    with Cons.prems have n: "n \<in> set ns" and d: "distinct ns" by simp_all
    have t: "getEventType s1 n = Some Meter"
      using frame_ev_type[OF aggregate_event_frame[OF a]] Cons.prems(4) by simp
    have w: "window_events s1 n e l = window_events s n e l"
      using False by (simp add: window_events_def s1 update_conv')
    have i: "aggregationIntervalMs s1 = aggregationIntervalMs s" by (simp add: s1)
    from Cons.IH[OF r d n t] w i show ?thesis by simp
  qed
qed

lemma aggregate_events_undeclared:
  "aggregate_events hdr e l ns (s, ms) = Inr (s', ms') \<Longrightarrow>
   getEventType s n = None \<Longrightarrow> map_of ms' n = map_of ms n"
proof (induction ns arbitrary: s ms)
  case Nil
  then show ?case by simp
next
  case (Cons a ns)
  from Cons.prems(1) obtain s1 ms1 where
    a: "aggregate_event hdr e l a (s, ms) = Inr (s1, ms1)"
    and r: "aggregate_events hdr e l ns (s1, ms1) = Inr (s', ms')"
    by (auto split: sum.splits)
  have t: "getEventType s1 n = None"
    using frame_ev_type[OF aggregate_event_frame[OF a]] Cons.prems(2) by simp
  from aggregate_event_Inr[OF a] Cons.prems(2) have "map_of ms1 n = map_of ms n"
    by (cases "n = a") auto
  with Cons.IH[OF r t] show ?case by simp
qed

lemma arr_not_in_range: "is_arr x \<Longrightarrow> \<not> in_range x ''eat'' g l \<and> \<not> in_range x ''sat'' g l"
  by (cases x) (simp_all add: in_range_def)

lemma arr_no_ts: "is_arr x \<Longrightarrow> \<not> js_ge (get_prop x ''ts'') g"
  by (cases x) simp_all

lemma arrs_kept_empty:
  "\<forall>x\<in>set xs. is_arr x \<Longrightarrow> filter (\<lambda>x. in_range x ''eat'' g l \<or> in_range x ''sat'' g l) xs = []"
  by (induction xs) (simp_all add: arr_not_in_range)

lemma arrs_window_empty:
  "\<forall>x\<in>set xs. is_arr x \<Longrightarrow>
   filter (\<lambda>x. js_ge (get_prop x ''ts'') g \<and> js_le (get_prop x ''ts'') l) xs = []"
  by (induction xs) (simp_all add: arr_no_ts)

lemma frame_tm_refl: "frame_tm s s"
  by (simp add: frame_tm_def)

lemma frame_tm_trans: "frame_tm a b \<Longrightarrow> frame_tm b c \<Longrightarrow> frame_tm a c"
  unfolding frame_tm_def
  by (metis (no_types, lifting) state.surjective state.update_convs(6))

lemma aggregate_timer_frame:
  assumes "aggregate_timer e l n (s, p) = Inr (s', p')"
  shows "frame_tm s s'"
proof -
  from aggregate_timer_Inr[OF assms] obtain xs where
    "map_of (timers s) n = Some xs"
    "s' = s\<lparr>timers := AList.update n
             (filter (\<lambda>x. in_range x ''eat'' e l \<or> in_range x ''sat'' e l) xs) (timers s)\<rparr>"
    by blast
  then show ?thesis by (simp add: frame_tm_def update_same_keys)
qed

lemma aggregate_timers_frame:
  "aggregate_timers e l ns (s, p) = Inr (s', p') \<Longrightarrow> frame_tm s s'"
proof (induction ns arbitrary: s p)
  case Nil
  then show ?case by (simp add: frame_tm_refl)
next
  case (Cons a ns)
  from Cons.prems obtain s1 p1 where
    a: "aggregate_timer e l a (s, p) = Inr (s1, p1)"
    and r: "aggregate_timers e l ns (s1, p1) = Inr (s', p')"
    by (auto split: sum.splits)
  show ?case using aggregate_timer_frame[OF a] Cons.IH[OF r] by (rule frame_tm_trans)
qed

lemma aggregate_timers_other:
  "aggregate_timers e l ns (s, p) = Inr (s', p') \<Longrightarrow> k \<notin> set ns \<Longrightarrow> map_of p' k = map_of p k"
proof (induction ns arbitrary: s p)
  case Nil
  then show ?case by simp
next
  case (Cons a ns)
  from Cons.prems obtain s1 p1 where
    a: "aggregate_timer e l a (s, p) = Inr (s1, p1)"
    and r: "aggregate_timers e l ns (s1, p1) = Inr (s', p')"
    by (auto split: sum.splits)
  from aggregate_timer_Inr[OF a] Cons.prems(2) have "map_of p1 k = map_of p k"
    by (auto simp: update_conv')
  with Cons.IH[OF r] Cons.prems(2) show ?case by simp
qed

lemma aggregate_timers_emptied:
  "aggregate_timers e l ns (s, p) = Inr (s', p') \<Longrightarrow> arr_timers s \<Longrightarrow>
   arr_timers s' \<and>
   (\<forall>n. map_of (timers s') n = (if n \<in> set ns then Some [] else map_of (timers s) n))"
proof (induction ns arbitrary: s p)
  case Nil
  then show ?case by simp
next
  case (Cons a ns)
  from Cons.prems obtain s1 p1 where
    a: "aggregate_timer e l a (s, p) = Inr (s1, p1)"
    and r: "aggregate_timers e l ns (s1, p1) = Inr (s', p')"
    by (auto split: sum.splits)
  from aggregate_timer_Inr[OF a] obtain xs where
    xs: "map_of (timers s) a = Some xs"
    and s1: "s1 = s\<lparr>timers := AList.update a
             (filter (\<lambda>x. in_range x ''eat'' e l \<or> in_range x ''sat'' e l) xs) (timers s)\<rparr>"
    by blast
  from Cons.prems(2) xs have "\<forall>x\<in>set xs. is_arr x" by (simp add: arr_timers_def)
  then have k: "filter (\<lambda>x. in_range x ''eat'' e l \<or> in_range x ''sat'' e l) xs = []"
    by (rule arrs_kept_empty)
  have m: "map_of (timers s1) n = (if n = a then Some [] else map_of (timers s) n)" for n
    by (simp add: s1 k update_conv')
  have "arr_timers s1"
    using Cons.prems(2) by (auto simp: arr_timers_def m split: if_splits)
  from Cons.IH[OF r this] m show ?case by auto
qed

lemma aggregate_timers_value:
  "aggregate_timers e l ns (s, p) = Inr (s', p') \<Longrightarrow> arr_timers s \<Longrightarrow> n \<in> set ns \<Longrightarrow>
   map_of p' n = Some (PSummary \<lparr>stype = Watermark, svalue = VNum (Num 0), sunit = None\<rparr>)"
proof (induction ns arbitrary: s p)
  case Nil
  then show ?case by simp
next
  case (Cons a ns)
  from Cons.prems obtain s1 p1 where
    a: "aggregate_timer e l a (s, p) = Inr (s1, p1)"
    and r: "aggregate_timers e l ns (s1, p1) = Inr (s', p')"
    by (auto split: sum.splits)
  from aggregate_timer_Inr[OF a] obtain xs where
    xs: "map_of (timers s) a = Some xs"
    and p1: "p1 = AList.update a (PSummary \<lparr>stype = Watermark,
                  svalue = VNum (Num (of_int (fst (foldl mark_step (0, 0)
                     (filter (\<lambda>x. js_ge (get_prop x ''ts'') l \<and> js_le (get_prop x ''ts'') e) xs))))),
                  sunit = None\<rparr>) p"
    by blast
  from Cons.prems(2) xs have "\<forall>x\<in>set xs. is_arr x" by (simp add: arr_timers_def)
  then have w: "filter (\<lambda>x. js_ge (get_prop x ''ts'') l \<and> js_le (get_prop x ''ts'') e) xs = []"
    by (rule arrs_window_empty)
  have s1: "arr_timers s1"
    using aggregate_timers_emptied[of e l "[a]" s p s1 p1] a Cons.prems(2) by simp
  show ?case
  proof (cases "n \<in> set ns")
    case True
    from Cons.IH[OF r s1 True] show ?thesis .
  next
    case False
    with Cons.prems(3) have "n = a" by simp
    with aggregate_timers_other[OF r False] p1 w show ?thesis
      by (simp add: update_conv')
  qed
qed

text \<open>A tick that closes a window, split into its two loops.\<close>

lemma defaultAggregator_closes:
  assumes "defaultAggregator hdr s now uid = Inr s'"
    and "window_start s = Fin e"
    and "\<not> now < e + aggregationIntervalMs s + aggregationLagMs s"
  shows "\<exists>s2 ms s3 p.
     aggregate_events hdr e (e + aggregationIntervalMs s) (listEvents s)
        (s\<lparr>nextPeriodBeginning := Some (e + aggregationIntervalMs s + 1)\<rparr>, []) = Inr (s2, ms) \<and>
     aggregate_timers e (e + aggregationIntervalMs s) (map fst (timers s2))
        (s2, [(''id'', PStr uid), (''startsAt'', PNum e),
              (''endsAt'', PNum (e + aggregationIntervalMs s)), (''metrics'', PMetrics ms)])
        = Inr (s3, p) \<and>
     s' = s3\<lparr>periods := periods s3 @ [p]\<rparr>"
  using assms
  by (auto simp: defaultAggregator_def Let_def listEvents_def split: sum.splits prod.splits)

lemma defaultAggregator_skips:
  "window_start s = Infinity \<Longrightarrow> defaultAggregator hdr s now uid = Inr s"
  "window_start s = Fin e \<Longrightarrow> now < e + aggregationIntervalMs s + aggregationLagMs s \<Longrightarrow>
     defaultAggregator hdr s now uid = Inr s"
  by (simp_all add: defaultAggregator_def Let_def)

subsection \<open>Invariants of reachable states\<close>

lemma wf_new: "wf_state (new_Metrics os)"
  by (simp add: wf_state_def new_Metrics_def arr_timers_def getEventType_def)

lemma wf_describe_one: "wf_state s \<Longrightarrow> wf_state (describe_one s d)"
  unfolding wf_state_def arr_timers_def getEventType_def describe_one_def Let_def
  by (auto simp: update_conv' distinct_update dom_update split: if_splits option.splits)

lemma wf_describeMetric: "wf_state s \<Longrightarrow> wf_state (describeMetric s ds)"
  unfolding describeMetric_def
  by (induction ds arbitrary: s) (simp_all add: wf_describe_one)

lemma wf_event: "wf_state s \<Longrightarrow> wf_state (event s n val tgs now)"
  unfolding wf_state_def arr_timers_def getEventType_def event_def Let_def
  by (auto simp: distinct_update dom_update)

lemma arr_timers_push: "arr_timers s \<Longrightarrow> arr_timers (push_timer s n (JArr ys))"
proof -
  assume a: "arr_timers s"
  have "\<forall>x\<in>set xs. is_arr x"
    if "map_of (timers (push_timer s n (JArr ys))) k = Some xs" for k xs
  proof (cases "k = n")
    case False
    with that have "map_of (timers s) k = Some xs"
      by (simp add: push_timer_def Let_def update_conv')
    with a show ?thesis by (simp add: arr_timers_def)
  next
    case True
    show ?thesis
    proof (cases "map_of (timers s) n")
      case None
      with that True show ?thesis
        by (auto simp: push_timer_def Let_def update_conv')
    next
      case (Some zs)
      with a have "\<forall>x\<in>set zs. is_arr x" by (simp add: arr_timers_def)
      with that True Some show ?thesis
        by (auto simp: push_timer_def Let_def update_conv')
    qed
  qed
  then show ?thesis by (simp add: arr_timers_def)
qed

lemma wf_push_arr: "wf_state s \<Longrightarrow> wf_state (push_timer s n (JArr ys))"
  using arr_timers_push[of s n ys]
  by (simp add: wf_state_def getEventType_def push_timer_def Let_def)

lemma frame_tm_events: "frame_tm s s' \<Longrightarrow> events s' = events s \<and> eventTypes s' = eventTypes s
   \<and> periods s' = periods s \<and> nextPeriodBeginning s' = nextPeriodBeginning s
   \<and> aggregationIntervalMs s' = aggregationIntervalMs s \<and> aggregationLagMs s' = aggregationLagMs s"
  unfolding frame_tm_def
  by (metis state.select_convs state.surjective state.update_convs(6))

lemma frame_ev_rest: "frame_ev s s' \<Longrightarrow> timers s' = timers s \<and> eventTypes s' = eventTypes s
   \<and> periods s' = periods s \<and> nextPeriodBeginning s' = nextPeriodBeginning s
   \<and> aggregationIntervalMs s' = aggregationIntervalMs s \<and> aggregationLagMs s' = aggregationLagMs s"
  unfolding frame_ev_def
  by (metis state.select_convs state.surjective state.update_convs(3))

text \<open>What a tick leaves behind: nothing, or one more period.\<close>

lemma defaultAggregator_cases:
  assumes "defaultAggregator hdr s now uid = Inr s'"
  shows "s' = s \<or>
    (\<exists>e s2 ms s3 p. window_start s = Fin e \<and>
       \<not> now < e + aggregationIntervalMs s + aggregationLagMs s \<and>
       aggregate_events hdr e (e + aggregationIntervalMs s) (listEvents s)
          (s\<lparr>nextPeriodBeginning := Some (e + aggregationIntervalMs s + 1)\<rparr>, []) = Inr (s2, ms) \<and>
       aggregate_timers e (e + aggregationIntervalMs s) (map fst (timers s2))
          (s2, [(''id'', PStr uid), (''startsAt'', PNum e),
                (''endsAt'', PNum (e + aggregationIntervalMs s)), (''metrics'', PMetrics ms)])
          = Inr (s3, p) \<and>
       s' = s3\<lparr>periods := periods s3 @ [p]\<rparr>)"
proof (cases "window_start s")
  case Infinity
  with assms defaultAggregator_skips(1)[OF Infinity] show ?thesis by simp
next
  case (Fin e)
  show ?thesis
  proof (cases "now < e + aggregationIntervalMs s + aggregationLagMs s")
    case True
    with assms defaultAggregator_skips(2)[OF Fin True] show ?thesis by simp
  next
    case False
    from defaultAggregator_closes[OF assms Fin False] Fin False show ?thesis by blast
  qed
qed

lemma wf_cursor: "wf_state (s\<lparr>nextPeriodBeginning := x\<rparr>) = wf_state s"
  by (simp add: wf_state_def arr_timers_def getEventType_def)

lemma wf_periods: "wf_state (s\<lparr>periods := x\<rparr>) = wf_state s"
  by (simp add: wf_state_def arr_timers_def getEventType_def)

lemma wf_frame_ev: "frame_ev s s' \<Longrightarrow> wf_state s \<Longrightarrow> wf_state s'"
  using frame_ev_rest[of s s']
  unfolding wf_state_def arr_timers_def getEventType_def frame_ev_def
  by (metis list.set_map)

lemma wf_tick:
  assumes "defaultAggregator hdr s now uid = Inr s'" and "wf_state s"
  shows "wf_state s'"
  using defaultAggregator_cases[OF assms(1)]
proof
  assume "s' = s"
  with assms(2) show ?thesis by simp
next
  assume "\<exists>e s2 ms s3 p. window_start s = Fin e \<and>
       \<not> now < e + aggregationIntervalMs s + aggregationLagMs s \<and>
       aggregate_events hdr e (e + aggregationIntervalMs s) (listEvents s)
          (s\<lparr>nextPeriodBeginning := Some (e + aggregationIntervalMs s + 1)\<rparr>, []) = Inr (s2, ms) \<and>
       aggregate_timers e (e + aggregationIntervalMs s) (map fst (timers s2))
          (s2, [(''id'', PStr uid), (''startsAt'', PNum e),
                (''endsAt'', PNum (e + aggregationIntervalMs s)), (''metrics'', PMetrics ms)])
          = Inr (s3, p) \<and>
       s' = s3\<lparr>periods := periods s3 @ [p]\<rparr>"
  then obtain e s2 ms s3 p where
    ev: "aggregate_events hdr e (e + aggregationIntervalMs s) (listEvents s)
          (s\<lparr>nextPeriodBeginning := Some (e + aggregationIntervalMs s + 1)\<rparr>, []) = Inr (s2, ms)"
    and tm: "aggregate_timers e (e + aggregationIntervalMs s) (map fst (timers s2))
          (s2, [(''id'', PStr uid), (''startsAt'', PNum e),
                (''endsAt'', PNum (e + aggregationIntervalMs s)), (''metrics'', PMetrics ms)])
          = Inr (s3, p)"
    and s': "s' = s3\<lparr>periods := periods s3 @ [p]\<rparr>"
    by blast
  have w2: "wf_state s2"
    using wf_frame_ev[OF aggregate_events_frame[OF ev]] assms(2) by (simp add: wf_cursor)
  then have a2: "arr_timers s2" by (simp add: wf_state_def)
  from aggregate_timers_emptied[OF tm a2] have a3: "arr_timers s3" by simp
  from frame_tm_events[OF aggregate_timers_frame[OF tm]] w2 a3 have "wf_state s3"
    by (simp add: wf_state_def getEventType_def)
  then show ?thesis by (simp add: s' wf_periods)
qed

lemma wf_step: "wf_state s \<Longrightarrow> step hdr s x = Inr s' \<Longrightarrow> wf_state s'"
  by (cases x) (auto simp: wf_describeMetric wf_event wf_push_arr markStart_def markEnd_def
                     intro: wf_tick)

lemma wf_run: "run hdr (new_Metrics os) xs = Inr s \<Longrightarrow> wf_state s"
  by (rule run_invariant[where P = wf_state, OF _ wf_new wf_step])

lemma tick_config:
  assumes "defaultAggregator hdr s now uid = Inr s'"
  shows "aggregationIntervalMs s' = aggregationIntervalMs s \<and>
         aggregationLagMs s' = aggregationLagMs s \<and>
         fst ` set (timers s') = fst ` set (timers s)"
  using defaultAggregator_cases[OF assms]
proof (elim disjE exE conjE)
  assume "s' = s"
  then show ?thesis by simp
next
  fix e s2 ms s3 p
  assume ev: "aggregate_events hdr e (e + aggregationIntervalMs s) (listEvents s)
          (s\<lparr>nextPeriodBeginning := Some (e + aggregationIntervalMs s + 1)\<rparr>, []) = Inr (s2, ms)"
    and tm: "aggregate_timers e (e + aggregationIntervalMs s) (map fst (timers s2))
          (s2, [(''id'', PStr uid), (''startsAt'', PNum e),
                (''endsAt'', PNum (e + aggregationIntervalMs s)), (''metrics'', PMetrics ms)])
          = Inr (s3, p)"
    and s': "s' = s3\<lparr>periods := periods s3 @ [p]\<rparr>"
  note f2 = frame_ev_rest[OF aggregate_events_frame[OF ev]]
  note f3 = frame_tm_events[OF aggregate_timers_frame[OF tm]]
  have "map fst (timers s3) = map fst (timers s2)"
    using aggregate_timers_frame[OF tm] by (simp add: frame_tm_def)
  then have "fst ` set (timers s3) = fst ` set (timers s2)"
    by (metis list.set_map)
  with f2 f3 show ?thesis by (simp add: s')
qed

lemma keys_update_mono: "fst ` set al \<subseteq> fst ` set (AList.update k x al)"
  by (simp add: dom_update subset_insertI)

lemma step_config:
  assumes "step hdr s x = Inr s'"
  shows "aggregationIntervalMs s' = aggregationIntervalMs s \<and>
         aggregationLagMs s' = aggregationLagMs s \<and>
         fst ` set (timers s) \<subseteq> fst ` set (timers s')"
proof (cases x)
  case (DescribeMetric ds)
  have "fst ` set (timers a) \<subseteq> fst ` set (timers (foldl describe_one a ds))" for a
  proof (induction ds arbitrary: a)
    case Nil
    show ?case by simp
  next
    case (Cons d ds)
    have "fst ` set (timers a) \<subseteq> fst ` set (timers (describe_one a d))"
      by (simp add: describe_one_def Let_def keys_update_mono)
    with Cons[of "describe_one a d"] show ?case by auto
  qed
  moreover from DescribeMetric assms have "s' = foldl describe_one s ds"
    by (simp add: describeMetric_def)
  ultimately show ?thesis using foldl_describe_frame[of s ds] by simp
next
  case (Event n val tgs now)
  with assms have "s' = event s n val tgs now" by simp
  then show ?thesis by (simp add: event_def Let_def)
next
  case (MarkStart n i now)
  with assms have "s' = markStart s n i now" by simp
  then show ?thesis by (simp add: markStart_def push_timer_def Let_def keys_update_mono)
next
  case (MarkEnd n i now)
  with assms have "s' = markEnd s n i now" by simp
  then show ?thesis by (simp add: markEnd_def push_timer_def Let_def keys_update_mono)
next
  case (Tick now uid)
  with assms tick_config[of hdr s now uid s'] show ?thesis by simp
qed

lemma run_config:
  assumes "run hdr s0 xs = Inr s"
  shows "aggregationIntervalMs s = aggregationIntervalMs s0 \<and>
         aggregationLagMs s = aggregationLagMs s0"
  by (rule run_invariant[where P = "\<lambda>a. aggregationIntervalMs a = aggregationIntervalMs s0 \<and>
         aggregationLagMs a = aggregationLagMs s0", OF assms]) (simp_all add: step_config)

lemma interval_new: "aggregationIntervalMs (new_Metrics os) \<noteq> 0"
  by (simp add: new_Metrics_def or_ten_def split: option.splits)

lemma describe_one_keeps_empty:
  "map_of (timers s) k = Some [] \<Longrightarrow> map_of (timers (describe_one s d)) k = Some []"
  "map_of (events s) k = Some [] \<Longrightarrow> map_of (events (describe_one s d)) k = Some []"
  by (simp_all add: describe_one_def Let_def update_conv')

lemma describe_one_resets:
  "mtype d = Some Watermark \<Longrightarrow> map_of (timers (describe_one s d)) (name d) = Some []"
  "mtype d \<noteq> Some Watermark \<Longrightarrow> map_of (events (describe_one s d)) (name d) = Some []"
  by (simp_all add: describe_one_def Let_def update_conv')

lemma closing_tick:
  assumes reach: "run hdr (new_Metrics os) ops = Inr s"
    and start: "window_start s = Fin e"
    and due: "\<not> now < e + aggregationIntervalMs s + aggregationLagMs s"
    and tick: "defaultAggregator hdr s now uid = Inr s'"
  obtains s2 ms s3 p where
    "aggregate_events hdr e (e + aggregationIntervalMs s) (map fst (events s))
        (s\<lparr>nextPeriodBeginning := Some (e + aggregationIntervalMs s + 1)\<rparr>, []) = Inr (s2, ms)"
    "aggregate_timers e (e + aggregationIntervalMs s) (map fst (timers s))
        (s2, [(''id'', PStr uid), (''startsAt'', PNum e),
              (''endsAt'', PNum (e + aggregationIntervalMs s)), (''metrics'', PMetrics ms)])
        = Inr (s3, p)"
    "s' = s3\<lparr>periods := periods s3 @ [p]\<rparr>"
    "periods s3 = periods s" "events s3 = events s2" "timers s2 = timers s"
    "wf_state s" "arr_timers s2"
proof -
  from defaultAggregator_closes[OF tick start due] obtain s2 ms s3 p where
    ev: "aggregate_events hdr e (e + aggregationIntervalMs s) (listEvents s)
          (s\<lparr>nextPeriodBeginning := Some (e + aggregationIntervalMs s + 1)\<rparr>, []) = Inr (s2, ms)"
    and tm: "aggregate_timers e (e + aggregationIntervalMs s) (map fst (timers s2))
          (s2, [(''id'', PStr uid), (''startsAt'', PNum e),
                (''endsAt'', PNum (e + aggregationIntervalMs s)), (''metrics'', PMetrics ms)])
          = Inr (s3, p)"
    and s': "s' = s3\<lparr>periods := periods s3 @ [p]\<rparr>"
    by blast
  have w: "wf_state s" using reach by (rule wf_run)
  note f2 = frame_ev_rest[OF aggregate_events_frame[OF ev]]
  note f3 = frame_tm_events[OF aggregate_timers_frame[OF tm]]
  have t2: "timers s2 = timers s" using f2 by simp
  have a2: "arr_timers s2" using w t2 by (simp add: wf_state_def arr_timers_def)
  show thesis
    using that[of s2 ms s3 p] ev tm s' f2 f3 t2 w a2 by (simp add: listEvents_def)
qed

text \<open>
  What the aggregator reports for a declared counter and a declared meter, and how the
  windows follow one another, in stores where no watermark metric bears the name of a
  property of the period object (\<open>metrics\<close>, \<open>startsAt\<close>, \<open>endsAt\<close>). The assignment
  \<open>period[name]\<close> of the second loop replaces the property otherwise.
\<close>

lemma counter_entry_if_no_clash:
  assumes reach: "run hdr (new_Metrics os) ops = Inr s"
    and decl: "getEventType s n = Some Counter"
    and start: "window_start s = Fin startsAt"
    and due: "\<not> now < startsAt + aggregationIntervalMs s + aggregationLagMs s"
    and tick: "defaultAggregator hdr s now uid = Inr s'"
    and nm: "''metrics'' \<notin> fst ` set (timers s)"
  shows "\<exists>p ms es. periods s' = periods s @ [p] \<and>
           map_of p ''metrics'' = Some (PMetrics ms) \<and>
           map_of (events s) n = Some es \<and>
           map_of ms n = Some \<lparr>stype = Counter,
              svalue = VNum (js_sum (map v
                 (filter (\<lambda>x. startsAt \<le> ts x \<and> ts x \<le> startsAt + aggregationIntervalMs s) es))),
              sunit = None\<rparr> \<and>
           (filter (\<lambda>x. startsAt \<le> ts x \<and> ts x \<le> startsAt + aggregationIntervalMs s) es = []
              \<longrightarrow> map_of ms n = Some \<lparr>stype = Counter, svalue = VNum (Num 0), sunit = None\<rparr>)"
proof -
  from reach start due tick obtain s2 ms s3 p where
    ev: "aggregate_events hdr startsAt (startsAt + aggregationIntervalMs s) (map fst (events s))
        (s\<lparr>nextPeriodBeginning := Some (startsAt + aggregationIntervalMs s + 1)\<rparr>, []) = Inr (s2, ms)"
    and tm: "aggregate_timers startsAt (startsAt + aggregationIntervalMs s) (map fst (timers s))
        (s2, [(''id'', PStr uid), (''startsAt'', PNum startsAt),
              (''endsAt'', PNum (startsAt + aggregationIntervalMs s)), (''metrics'', PMetrics ms)])
        = Inr (s3, p)"
    and s': "s' = s3\<lparr>periods := periods s3 @ [p]\<rparr>"
    and p3: "periods s3 = periods s" and w: "wf_state s"
    by (rule closing_tick)
  from w decl have key: "n \<in> set (map fst (events s))" and dist: "distinct (map fst (events s))"
    by (simp_all add: wf_state_def)
  then obtain es where es: "map_of (events s) n = Some es"
    by (metis list.set_map map_of_eq_None_iff not_Some_eq)
  let ?s1 = "s\<lparr>nextPeriodBeginning := Some (startsAt + aggregationIntervalMs s + 1)\<rparr>"
  have "getEventType ?s1 n = Some Counter" using decl by (simp add: getEventType_def)
  from aggregate_events_counter[OF ev dist key this] es
  have m: "map_of ms n = Some \<lparr>stype = Counter,
              svalue = VNum (js_sum (map v
                 (filter (\<lambda>x. startsAt \<le> ts x \<and> ts x \<le> startsAt + aggregationIntervalMs s) es))),
              sunit = None\<rparr>"
    by (simp add: window_events_def)
  have "''metrics'' \<notin> set (map fst (timers s))" using nm by simp
  from aggregate_timers_other[OF tm this] have pm: "map_of p ''metrics'' = Some (PMetrics ms)"
    by simp
  have "periods s' = periods s @ [p]" by (simp add: s' p3)
  with pm es m show ?thesis by auto
qed

lemma meter_entry_if_no_clash:
  assumes reach: "run hdr (new_Metrics os) ops = Inr s"
    and decl: "getEventType s n = Some Meter"
    and start: "window_start s = Fin startsAt"
    and due: "\<not> now < startsAt + aggregationIntervalMs s + aggregationLagMs s"
    and tick: "defaultAggregator hdr s now uid = Inr s'"
    and nm: "''metrics'' \<notin> fst ` set (timers s)"
  shows "\<exists>p ms es. periods s' = periods s @ [p] \<and>
           map_of p ''metrics'' = Some (PMetrics ms) \<and>
           map_of (events s) n = Some es \<and>
           map_of ms n = Some \<lparr>stype = Meter,
              svalue = VNum (round_js
      (js_div (Num (of_nat (length (filter (\<lambda>x. startsAt \<le> ts x \<and> ts x \<le> startsAt + aggregationIntervalMs s) es))))
         (js_div (Num (of_nat (aggregationIntervalMs s))) (Num 1000))) 2),
              sunit = Some ''second''\<rparr> \<and>
           aggregationIntervalMs s \<noteq> 0"
proof -
  from reach start due tick obtain s2 ms s3 p where
    ev: "aggregate_events hdr startsAt (startsAt + aggregationIntervalMs s) (map fst (events s))
        (s\<lparr>nextPeriodBeginning := Some (startsAt + aggregationIntervalMs s + 1)\<rparr>, []) = Inr (s2, ms)"
    and tm: "aggregate_timers startsAt (startsAt + aggregationIntervalMs s) (map fst (timers s))
        (s2, [(''id'', PStr uid), (''startsAt'', PNum startsAt),
              (''endsAt'', PNum (startsAt + aggregationIntervalMs s)), (''metrics'', PMetrics ms)])
        = Inr (s3, p)"
    and s': "s' = s3\<lparr>periods := periods s3 @ [p]\<rparr>"
    and p3: "periods s3 = periods s" and w: "wf_state s"
    by (rule closing_tick)
  from w decl have key: "n \<in> set (map fst (events s))" and dist: "distinct (map fst (events s))"
    by (simp_all add: wf_state_def)
  then obtain es where es: "map_of (events s) n = Some es"
    by (metis list.set_map map_of_eq_None_iff not_Some_eq)
  let ?s1 = "s\<lparr>nextPeriodBeginning := Some (startsAt + aggregationIntervalMs s + 1)\<rparr>"
  have "getEventType ?s1 n = Some Meter" using decl by (simp add: getEventType_def)
  from aggregate_events_meter[OF ev dist key this] es
  have m: "map_of ms n = Some \<lparr>stype = Meter,
              svalue = VNum (round_js
      (js_div (Num (of_nat (length (filter (\<lambda>x. startsAt \<le> ts x \<and> ts x \<le> startsAt + aggregationIntervalMs s) es))))
         (js_div (Num (of_nat (aggregationIntervalMs s))) (Num 1000))) 2),
              sunit = Some ''second''\<rparr>"
    by (simp add: window_events_def)
  have "''metrics'' \<notin> set (map fst (timers s))" using nm by simp
  from aggregate_timers_other[OF tm this] have pm: "map_of p ''metrics'' = Some (PMetrics ms)"
    by simp
  have i: "aggregationIntervalMs s \<noteq> 0"
    using run_config[OF reach] interval_new[of os] by simp
  have "periods s' = periods s @ [p]" by (simp add: s' p3)
  with pm es m i show ?thesis by auto
qed

lemma windows_ok_snoc:
  assumes "windows_ok I ps"
    and "map_of p ''startsAt'' = Some (PNum a)"
    and "map_of p ''endsAt'' = Some (PNum (a + I))"
    and "ps \<noteq> [] \<Longrightarrow> map_of (last ps) ''endsAt'' = Some (PNum b) \<and> a = b + 1"
  shows "windows_ok I (ps @ [p])"
proof -
  have "\<exists>b. map_of ((ps @ [p]) ! i) ''endsAt'' = Some (PNum b) \<and>
             map_of ((ps @ [p]) ! Suc i) ''startsAt'' = Some (PNum (b + 1))"
    if i: "Suc i < length (ps @ [p])" for i
  proof (cases "Suc i < length ps")
    case True
    with assms(1) show ?thesis by (simp add: windows_ok_def nth_append)
  next
    case False
    with i have l: "Suc i = length ps" by simp
    then have ne: "ps \<noteq> []" by auto
    from l have "i = length ps - 1" by simp
    then have "ps ! i = last ps" by (simp add: last_conv_nth ne)
    with assms(4)[OF ne] assms(2) l show ?thesis by (simp add: nth_append)
  qed
  with assms(1,2,3) show ?thesis by (auto simp: windows_ok_def)
qed

lemma tick_windows:
  assumes tick: "defaultAggregator hdr s now uid = Inr s'"
    and w: "windows_ok (aggregationIntervalMs s) (periods s)" and c: "cursor_ok s"
    and n1: "''startsAt'' \<notin> fst ` set (timers s')" and n2: "''endsAt'' \<notin> fst ` set (timers s')"
  shows "windows_ok (aggregationIntervalMs s) (periods s') \<and> cursor_ok s'"
  using defaultAggregator_cases[OF tick]
proof (elim disjE exE conjE)
  assume "s' = s"
  with w c show ?thesis by simp
next
  fix e s2 ms s3 p
  assume start: "window_start s = Fin e"
    and ev: "aggregate_events hdr e (e + aggregationIntervalMs s) (listEvents s)
          (s\<lparr>nextPeriodBeginning := Some (e + aggregationIntervalMs s + 1)\<rparr>, []) = Inr (s2, ms)"
    and tm: "aggregate_timers e (e + aggregationIntervalMs s) (map fst (timers s2))
          (s2, [(''id'', PStr uid), (''startsAt'', PNum e),
                (''endsAt'', PNum (e + aggregationIntervalMs s)), (''metrics'', PMetrics ms)])
          = Inr (s3, p)"
    and s': "s' = s3\<lparr>periods := periods s3 @ [p]\<rparr>"
  note f2 = frame_ev_rest[OF aggregate_events_frame[OF ev]]
  note f3 = frame_tm_events[OF aggregate_timers_frame[OF tm]]
  have k: "set (map fst (timers s2)) = fst ` set (timers s')"
    using f2 tick_config[OF tick] by simp
  from n1 k have "''startsAt'' \<notin> set (map fst (timers s2))" by simp
  from aggregate_timers_other[OF tm this] have a: "map_of p ''startsAt'' = Some (PNum e)"
    by simp
  from n2 k have "''endsAt'' \<notin> set (map fst (timers s2))" by simp
  from aggregate_timers_other[OF tm this]
  have b: "map_of p ''endsAt'' = Some (PNum (e + aggregationIntervalMs s))"
    by simp
  have ps: "periods s' = periods s @ [p]" using f2 f3 by (simp add: s')
  have cur: "nextPeriodBeginning s' = Some (e + aggregationIntervalMs s + 1)"
    using f2 f3 by (simp add: s')
  have link: "map_of (last (periods s)) ''endsAt'' = Some (PNum (e - 1)) \<and> e = (e - 1) + 1"
    if "periods s \<noteq> []"
  proof (cases "nextPeriodBeginning s")
    case None
    with c that show ?thesis by (simp add: cursor_ok_def)
  next
    case (Some n)
    with c have "n \<noteq> 0" "map_of (last (periods s)) ''endsAt'' = Some (PNum (n - 1))"
      by (simp_all add: cursor_ok_def)
    moreover from Some \<open>n \<noteq> 0\<close> start have "e = n" by (simp add: window_start_def)
    ultimately show ?thesis by simp
  qed
  have "windows_ok (aggregationIntervalMs s) (periods s @ [p])"
    using w a b link by (rule windows_ok_snoc)
  moreover have "cursor_ok s'"
    using b by (simp add: cursor_ok_def cur ps)
  ultimately show ?thesis by (simp add: ps)
qed

lemma cursor_ok_frame:
  "periods s' = periods s \<Longrightarrow> nextPeriodBeginning s' = nextPeriodBeginning s \<Longrightarrow>
   cursor_ok s' = cursor_ok s"
  by (simp add: cursor_ok_def split: option.splits)

lemma step_windows:
  assumes st: "step hdr s x = Inr s'"
    and w: "windows_ok (aggregationIntervalMs s) (periods s)" and c: "cursor_ok s"
    and n1: "''startsAt'' \<notin> fst ` set (timers s')" and n2: "''endsAt'' \<notin> fst ` set (timers s')"
  shows "windows_ok (aggregationIntervalMs s) (periods s') \<and> cursor_ok s'"
proof (cases x)
  case (DescribeMetric ds)
  with st have "s' = foldl describe_one s ds" by (simp add: describeMetric_def)
  with foldl_describe_frame[of s ds]
  have "periods s' = periods s" "nextPeriodBeginning s' = nextPeriodBeginning s" by simp_all
  with w c cursor_ok_frame[of s' s] show ?thesis by simp
next
  case (Event n val tgs now)
  with st have "s' = event s n val tgs now" by simp
  then have "periods s' = periods s" "nextPeriodBeginning s' = nextPeriodBeginning s"
    by (simp_all add: event_def Let_def)
  with w c cursor_ok_frame[of s' s] show ?thesis by simp
next
  case (MarkStart n i now)
  with st have "s' = markStart s n i now" by simp
  then have "periods s' = periods s" "nextPeriodBeginning s' = nextPeriodBeginning s"
    by (simp_all add: markStart_def push_timer_def Let_def)
  with w c cursor_ok_frame[of s' s] show ?thesis by simp
next
  case (MarkEnd n i now)
  with st have "s' = markEnd s n i now" by simp
  then have "periods s' = periods s" "nextPeriodBeginning s' = nextPeriodBeginning s"
    by (simp_all add: markEnd_def push_timer_def Let_def)
  with w c cursor_ok_frame[of s' s] show ?thesis by simp
next
  case (Tick now uid)
  with st have "defaultAggregator hdr s now uid = Inr s'" by simp
  from tick_windows[OF this w c n1 n2] show ?thesis .
qed

lemma run_windows:
  "run hdr s0 xs = Inr s \<Longrightarrow> windows_ok (aggregationIntervalMs s0) (periods s0) \<Longrightarrow>
   cursor_ok s0 \<Longrightarrow> ''startsAt'' \<notin> fst ` set (timers s) \<Longrightarrow> ''endsAt'' \<notin> fst ` set (timers s) \<Longrightarrow>
   windows_ok (aggregationIntervalMs s0) (periods s) \<and> cursor_ok s"
proof (induction xs arbitrary: s rule: rev_induct)
  case Nil
  then show ?case by simp
next
  case (snoc x xs)
  from snoc.prems(1) obtain s1 where r: "run hdr s0 xs = Inr s1" and st: "step hdr s1 x = Inr s"
    by (auto simp: run_append split: sum.splits)
  from step_config[OF st] snoc.prems(4,5)
  have "''startsAt'' \<notin> fst ` set (timers s1)" "''endsAt'' \<notin> fst ` set (timers s1)" by auto
  from snoc.IH[OF r snoc.prems(2,3) this]
  have "windows_ok (aggregationIntervalMs s0) (periods s1)" "cursor_ok s1" by simp_all
  moreover have "aggregationIntervalMs s1 = aggregationIntervalMs s0"
    using run_config[OF r] by simp
  ultimately show ?case using step_windows[OF st _ _ snoc.prems(4,5)] by simp
qed

lemma windows_contiguous_if_no_clash:
  assumes "run hdr (new_Metrics os) ops = Inr s"
    and "''startsAt'' \<notin> fst ` set (timers s)" and "''endsAt'' \<notin> fst ` set (timers s)"
  shows "(\<forall>i. Suc i < length (periods s) \<longrightarrow>
            (\<exists>b. map_of (periods s ! i) ''endsAt'' = Some (PNum b) \<and>
                 map_of (periods s ! Suc i) ''startsAt'' = Some (PNum (b + 1)))) \<and>
         (\<forall>p\<in>set (periods s). \<exists>a. map_of p ''startsAt'' = Some (PNum a) \<and>
            map_of p ''endsAt'' = Some (PNum (a + aggregationIntervalMs (new_Metrics os))))"
proof -
  have "windows_ok (aggregationIntervalMs (new_Metrics os)) (periods (new_Metrics os))"
    "cursor_ok (new_Metrics os)"
    by (simp_all add: windows_ok_def cursor_ok_def new_Metrics_def)
  from run_windows[OF assms(1) this assms(2,3)] show ?thesis
    by (simp add: windows_ok_def)
qed

text \<open>
  Values of \<open>fl\<close> that the example runs need, and values that arithmetic on the
  rationals would give differently: 23 ticks in a window of 40 seconds are reported as
  0.57, adding 1 to \<open>2^53\<close> changes nothing, and the binary64 values of 0.1 and 0.2 add up
  to 0.30000000000000004.
\<close>

lemma fl_1: "fl 1 = Num 1"
  by code_simp

lemma fl_2: "fl 2 = Num 2"
  by code_simp

lemma fl_3: "fl 3 = Num 3"
  by code_simp

lemma fl_100: "fl 100 = Num 100"
  by code_simp

lemma round_js_23_over_40:
  "round_js (js_div (Num 23) (js_div (Num 40000) (Num 1000))) 2
     = Num (5134103575202365 / 9007199254740992)"
  by code_simp

lemma nearest_to_057:
  "fl (57 / 100) = Num (5134103575202365 / 9007199254740992) \<and>
   fl (58 / 100) \<noteq> Num (5134103575202365 / 9007199254740992)"
  by code_simp

lemma js_sum_2_53: "js_sum [Num (2 ^ 53), Num 1] = Num (2 ^ 53)"
  by code_simp

lemma fl_tenth: "fl (1 / 10) = Num (3602879701896397 / 36028797018963968)"
  by code_simp

lemma js_add_tenth_fifth:
  "js_add (Num (3602879701896397 / 36028797018963968)) (Num (3602879701896397 / 18014398509481984))
     = Num (1351079888211149 / 4503599627370496)"
  by code_simp

lemmas model_defs = new_Metrics_def or_ten_def describeMetric_def describe_one_def event_def
    markStart_def markEnd_def push_timer_def defaultAggregator_def window_start_def getEarliestEventTimestamp_def
   listEvents_def getEventType_def getEventData_def deleteEventData_def
   getTimerData_def deleteTimerData_def in_range_def mark_step_def round_js_def create_def Let_def
   fl_1 fl_2 fl_3 fl_100

lemma run_basic: "run hdr_unused (new_Metrics basic_opts) basic_ops = Inr basic_state"
  by (simp add: basic_ops_def basic_opts_def basic_state_def model_defs)

lemma tick_basic: "defaultAggregator hdr_unused basic_state 5000 ''p1'' = Inr basic_closed"
  by (simp add: basic_state_def basic_closed_def basic_period_def model_defs)

lemma window_basic: "window_start basic_state = Fin 1000"
  by (simp add: basic_state_def window_start_def getEarliestEventTimestamp_def)

lemma run_watermark: "run hdr_unused create watermark_ops = Inr watermark_closed"
  by (simp add: watermark_ops_def watermark_closed_def watermark_period_def model_defs)

text \<open>
  Two facts about every closing tick of a reachable store. \<open>getTimerData\<close> filters on
  the property \<open>ts\<close>, which no timer entry has, so the scan of the second loop runs over
  an empty list and every watermark is reported as 0. A name whose type was never
  declared matches none of the three branches of the first loop, so it gets no entry in
  \<open>period.metrics\<close>, while its events are deleted all the same.
\<close>

lemma watermark_always_zero:
  assumes reach: "run hdr (new_Metrics os) ops = Inr s"
    and start: "window_start s = Fin e"
    and due: "\<not> now < e + aggregationIntervalMs s + aggregationLagMs s"
    and tick: "defaultAggregator hdr s now uid = Inr s'"
    and n: "n \<in> fst ` set (timers s)"
  shows "map_of (last (periods s')) n
           = Some (PSummary \<lparr>stype = Watermark, svalue = VNum (Num 0), sunit = None\<rparr>)"
proof -
  from reach start due tick obtain s2 ms s3 p where
    tm: "aggregate_timers e (e + aggregationIntervalMs s) (map fst (timers s))
        (s2, [(''id'', PStr uid), (''startsAt'', PNum e),
              (''endsAt'', PNum (e + aggregationIntervalMs s)), (''metrics'', PMetrics ms)])
        = Inr (s3, p)"
    and s': "s' = s3\<lparr>periods := periods s3 @ [p]\<rparr>"
    and a2: "arr_timers s2"
    by (rule closing_tick)
  from n have "n \<in> set (map fst (timers s))" by simp
  from aggregate_timers_value[OF tm a2 this] show ?thesis by (simp add: s')
qed

lemma undeclared_never_reported:
  assumes reach: "run hdr (new_Metrics os) ops = Inr s"
    and start: "window_start s = Fin e"
    and due: "\<not> now < e + aggregationIntervalMs s + aggregationLagMs s"
    and tick: "defaultAggregator hdr s now uid = Inr s'"
    and und: "getEventType s n = None"
    and nm: "''metrics'' \<notin> fst ` set (timers s)"
  shows "\<exists>ms. map_of (last (periods s')) ''metrics'' = Some (PMetrics ms) \<and> map_of ms n = None"
proof -
  from reach start due tick obtain s2 ms s3 p where
    ev: "aggregate_events hdr e (e + aggregationIntervalMs s) (map fst (events s))
        (s\<lparr>nextPeriodBeginning := Some (e + aggregationIntervalMs s + 1)\<rparr>, []) = Inr (s2, ms)"
    and tm: "aggregate_timers e (e + aggregationIntervalMs s) (map fst (timers s))
        (s2, [(''id'', PStr uid), (''startsAt'', PNum e),
              (''endsAt'', PNum (e + aggregationIntervalMs s)), (''metrics'', PMetrics ms)])
        = Inr (s3, p)"
    and s': "s' = s3\<lparr>periods := periods s3 @ [p]\<rparr>"
    by (rule closing_tick)
  have "getEventType (s\<lparr>nextPeriodBeginning := Some (e + aggregationIntervalMs s + 1)\<rparr>) n = None"
    using und by (simp add: getEventType_def)
  from aggregate_events_undeclared[OF ev this] have m: "map_of ms n = None" by simp
  have "''metrics'' \<notin> set (map fst (timers s))" using nm by simp
  from aggregate_timers_other[OF tm this] have "map_of p ''metrics'' = Some (PMetrics ms)"
    by simp
  with m show ?thesis by (simp add: s')
qed

section \<open>The claims\<close>

text \<open>
  Claim C1 says that every period ends the aggregation interval after it starts and
  that each period starts one millisecond after the end of the one before it. The
  second loop of the aggregator assigns the result of a watermark metric to
  \<open>period[name]\<close>, so a watermark metric named \<open>endsAt\<close> replaces the bound. In the run
  \<open>bounds_clash_ops\<close> such a metric is declared, one event is recorded at 10000 and the
  timer ticks at 30000 and 50001: both periods carry a watermark summary as \<open>endsAt\<close>,
  not \<open>startsAt\<close> plus 10000, and the second period starts at 20001 while the first has
  no numeric end. (In stores without such a name the claim holds:
  \<open>windows_contiguous_if_no_clash\<close>.)
\<close>

theorem period_bounds_overwritten:
  "run hdr_unused create bounds_clash_ops
     = Inr \<lparr>aggregationIntervalMs = 10000, aggregationLagMs = 10000,
            events = [(''hits'', [])],
            eventTypes = [(''endsAt'', Some Watermark)],
            eventNames = [(''endsAt'', ''endsAt'')],
            timers = [(''endsAt'', [])],
            periods =
              [[(''id'', PStr ''p1''), (''startsAt'', PNum 10000),
                (''endsAt'', PSummary \<lparr>stype = Watermark, svalue = VNum (Num 0), sunit = None\<rparr>),
                (''metrics'', PMetrics [])],
               [(''id'', PStr ''p2''), (''startsAt'', PNum 20001),
                (''endsAt'', PSummary \<lparr>stype = Watermark, svalue = VNum (Num 0), sunit = None\<rparr>),
                (''metrics'', PMetrics [])]],
            nextPeriodBeginning = Some 30002\<rparr>"
  by (simp add: bounds_clash_ops_def model_defs)

text \<open>
  Claim C2. A window is never closed before its end plus the lag has passed: when the
  window starts at \<open>windowStart\<close> and the clock reads less than
  \<open>windowStart + aggregationIntervalMs + aggregationLagMs\<close>, the tick returns without
  error and leaves the whole store as it was, so no period is appended, no event is
  pruned and the cursor is unchanged.
\<close>

theorem lag_safety:
  assumes "window_start s = Fin windowStart"
    and "now < windowStart + aggregationIntervalMs s + aggregationLagMs s"
  shows "defaultAggregator hdr s now uid = Inr s"
  using assms by (simp add: defaultAggregator_def Let_def)

theorem lag_safety_witness:
  "window_start basic_state = Fin 1000 \<and>
   4999 < 1000 + aggregationIntervalMs basic_state + aggregationLagMs basic_state \<and>
   defaultAggregator hdr_unused basic_state 4999 ''p0'' = Inr basic_state"
proof -
  have "4999 < 1000 + aggregationIntervalMs basic_state + aggregationLagMs basic_state"
    by (simp add: basic_state_def)
  with window_basic lag_safety[OF window_basic this] show ?thesis by simp
qed

text \<open>
  Claim C3 says that the period reports, for a declared counter, the sum of the values
  of its events in the window. In the run \<open>counter_clash_ops\<close> the counter \<open>requests\<close> is
  recorded with 1 and 2 within the window \<open>[1000, 3000]\<close>, and a start is marked on a
  watermark metric named \<open>metrics\<close>. The first loop writes the sum into
  \<open>period.metrics\<close>; the second loop then assigns the watermark result to
  \<open>period['metrics']\<close>, so the period that is stored has no entry for the counter.
  (In stores without such a name the entry is there, with the sum as \<open>_.sum\<close> adds it:
  \<open>counter_entry_if_no_clash\<close>.)
\<close>

theorem counter_entry_overwritten:
  "run hdr_unused (new_Metrics basic_opts) counter_clash_ops
     = Inr \<lparr>aggregationIntervalMs = 2000, aggregationLagMs = 2000,
            events = [(''requests'', [])],
            eventTypes = [(''requests'', Some Counter)],
            eventNames = [(''requests'', ''requests'')],
            timers = [(''metrics'', [])],
            periods =
              [[(''id'', PStr ''p1''), (''startsAt'', PNum 1000), (''endsAt'', PNum 3000),
                (''metrics'',
                 PSummary \<lparr>stype = Watermark, svalue = VNum (Num 0), sunit = None\<rparr>)]],
            nextPeriodBeginning = Some 3001\<rparr>"
  by (simp add: counter_clash_ops_def basic_opts_def model_defs)

text \<open>
  Claim C4 says that the period reports, for a declared meter, the rate
  \<open>round(N / (aggregationIntervalMs / 1000), 2)\<close> with unit \<open>second\<close>. In the run
  \<open>meter_clash_ops\<close> the meter \<open>rate\<close> ticks twice within the window \<open>[1000, 3000]\<close> and a
  watermark metric named \<open>metrics\<close> is declared: the watermark result replaces
  \<open>period.metrics\<close>, and the period that is stored has no entry for the meter. (In
  stores without such a name the entry is there, with the value that \<open>round\<close> computes
  in binary64: \<open>meter_entry_if_no_clash\<close>.)
\<close>

theorem meter_entry_overwritten:
  "run hdr_unused (new_Metrics basic_opts) meter_clash_ops
     = Inr \<lparr>aggregationIntervalMs = 2000, aggregationLagMs = 2000,
            events = [(''rate'', [])],
            eventTypes = [(''rate'', Some Meter), (''metrics'', Some Watermark)],
            eventNames = [(''rate'', ''rate''), (''metrics'', ''metrics'')],
            timers = [(''metrics'', [])],
            periods =
              [[(''id'', PStr ''p1''), (''startsAt'', PNum 1000), (''endsAt'', PNum 3000),
                (''metrics'',
                 PSummary \<lparr>stype = Watermark, svalue = VNum (Num 0), sunit = None\<rparr>)]],
            nextPeriodBeginning = Some 3001\<rparr>"
  by (simp add: meter_clash_ops_def basic_opts_def model_defs)

text \<open>
  Claim C5 says that the watermark of a window is the greatest number of marks open at
  the same time, which is 2 for starts at 0, 1 and 2 and stops at 1.5, 3 and 4. The
  code reports 0. In the run \<open>watermark_ops\<close> the starts are recorded at 10000, 11000
  and 12000 and the stops at 11500, 13000 and 14000, all within the window
  \<open>[10000, 20000]\<close>; the scan the specification describes gives 2 on these marks, and
  the period that the tick at 30000 produces carries 0 for the metric.
\<close>

theorem watermark_reports_zero:
  "run hdr_unused create watermark_ops = Inr watermark_closed \<and>
   periods watermark_closed = [watermark_period] \<and>
   map_of watermark_period ''concurrency''
     = Some (PSummary \<lparr>stype = Watermark, svalue = VNum (Num 0), sunit = None\<rparr>) \<and>
   spec_watermark 10000 20000
     [Start 10000, Start 11000, Start 12000, Stop 11500, Stop 13000, Stop 14000] = 2"
  by (simp add: run_watermark)
     (simp add: watermark_closed_def watermark_period_def spec_watermark_def)

text \<open>
  Claim C6 says that the watermark result is stored in \<open>period.metrics\<close> under the
  metric's name. The code assigns it to \<open>period[name]\<close>: in the same run the \<open>metrics\<close>
  dictionary of the period is empty, and the result is a property of the period object
  itself, beside \<open>id\<close>, \<open>startsAt\<close>, \<open>endsAt\<close> and \<open>metrics\<close>.
\<close>

theorem watermark_outside_metrics:
  "run hdr_unused create watermark_ops = Inr watermark_closed \<and>
   periods watermark_closed = [watermark_period] \<and>
   map_of watermark_period ''metrics'' = Some (PMetrics []) \<and>
   map_of watermark_period ''concurrency''
     = Some (PSummary \<lparr>stype = Watermark, svalue = VNum (Num 0), sunit = None\<rparr>)"
  by (simp add: run_watermark) (simp add: watermark_closed_def watermark_period_def)

text \<open>
  Claim C7. After a tick has closed the window ending at \<open>endsAt\<close>, the sequence of
  every name holds exactly its former events with \<open>ts > endsAt\<close>, so no event with
  \<open>ts \<le> endsAt\<close> remains and the later ones are retained; and the sequence of every
  watermark metric is empty, so no start or stop mark with a timestamp up to \<open>endsAt\<close>
  remains in it. (\<open>deleteTimerData\<close> keeps the entries whose own \<open>sat\<close> or \<open>eat\<close> lies in
  the window; the entries are arrays and have neither, so none is kept, whatever its
  timestamp.)
\<close>

theorem closed_window_pruned:
  assumes reach: "run hdr (new_Metrics os) ops = Inr s"
    and start: "window_start s = Fin startsAt"
    and due: "\<not> now < startsAt + aggregationIntervalMs s + aggregationLagMs s"
    and tick: "defaultAggregator hdr s now uid = Inr s'"
  shows "(\<forall>n. map_of (events s') n =
              map_option (filter (\<lambda>x. startsAt + aggregationIntervalMs s < ts x)) (map_of (events s) n)) \<and>
         (\<forall>n es x. map_of (events s') n = Some es \<longrightarrow> x \<in> set es \<longrightarrow>
              \<not> ts x \<le> startsAt + aggregationIntervalMs s) \<and>
         (\<forall>n xs. map_of (timers s') n = Some xs \<longrightarrow> xs = [])"
proof -
  from reach start due tick obtain s2 ms s3 p where
    ev: "aggregate_events hdr startsAt (startsAt + aggregationIntervalMs s) (map fst (events s))
        (s\<lparr>nextPeriodBeginning := Some (startsAt + aggregationIntervalMs s + 1)\<rparr>, []) = Inr (s2, ms)"
    and tm: "aggregate_timers startsAt (startsAt + aggregationIntervalMs s) (map fst (timers s))
        (s2, [(''id'', PStr uid), (''startsAt'', PNum startsAt),
              (''endsAt'', PNum (startsAt + aggregationIntervalMs s)), (''metrics'', PMetrics ms)])
        = Inr (s3, p)"
    and s': "s' = s3\<lparr>periods := periods s3 @ [p]\<rparr>"
    and e3: "events s3 = events s2" and t2: "timers s2 = timers s" and a2: "arr_timers s2"
    by (rule closing_tick)
  have A: "map_of (events s') n =
       map_option (filter (\<lambda>x. startsAt + aggregationIntervalMs s < ts x)) (map_of (events s) n)" for n
  proof (cases "n \<in> set (map fst (events s))")
    case True
    with aggregate_events_lookup[OF ev, of n] show ?thesis by (simp add: s' e3)
  next
    case False
    then have "map_of (events s) n = None" by (simp add: map_of_eq_None_iff)
    with False aggregate_events_lookup[OF ev, of n] show ?thesis by (simp add: s' e3)
  qed
  have B: "\<not> ts x \<le> startsAt + aggregationIntervalMs s"
    if "map_of (events s') n = Some es" "x \<in> set es" for n es x
    using that A[of n] by (cases "map_of (events s) n") auto
  have C: "xs = []" if "map_of (timers s') n = Some xs" for n xs
  proof -
    from aggregate_timers_emptied[OF tm a2]
    have m: "map_of (timers s3) n = (if n \<in> set (map fst (timers s)) then Some [] else map_of (timers s2) n)"
      by simp
    show ?thesis
    proof (cases "n \<in> set (map fst (timers s))")
      case True
      with m that show ?thesis by (simp add: s')
    next
      case False
      then have "map_of (timers s) n = None" by (simp add: map_of_eq_None_iff)
      with m False that show ?thesis by (simp add: s' t2)
    qed
  qed
  from A B C show ?thesis by blast
qed

theorem closed_window_pruned_witness:
  "run hdr_unused (new_Metrics basic_opts) basic_ops = Inr basic_state \<and>
   window_start basic_state = Fin 1000 \<and>
   \<not> 5000 < 1000 + aggregationIntervalMs basic_state + aggregationLagMs basic_state \<and>
   defaultAggregator hdr_unused basic_state 5000 ''p1'' = Inr basic_closed \<and>
   map_of (events basic_closed) ''rate'' =
     map_option (filter (\<lambda>x. 1000 + aggregationIntervalMs basic_state < ts x))
       (map_of (events basic_state) ''rate'') \<and>
   map_of (events basic_closed) ''rate'' = Some [\<lparr>ts = 3500, v = Num 1, tags = []\<rparr>] \<and>
   map_of (timers basic_closed) ''busy'' = Some []"
proof -
  have d: "\<not> 5000 < 1000 + aggregationIntervalMs basic_state + aggregationLagMs basic_state"
    by (simp add: basic_state_def)
  note cw = closed_window_pruned[OF run_basic window_basic d tick_basic]
  have a: "map_of (events basic_closed) ''rate'' =
     map_option (filter (\<lambda>x. 1000 + aggregationIntervalMs basic_state < ts x))
       (map_of (events basic_state) ''rate'')"
    using cw by blast
  have b: "map_of (events basic_closed) ''rate'' = Some [\<lparr>ts = 3500, v = Num 1, tags = []\<rparr>]"
    "map_of (timers basic_closed) ''busy'' = Some []"
    by (simp_all add: basic_closed_def basic_state_def)
  from run_basic window_basic d tick_basic a b show ?thesis by simp
qed

text \<open>
  Claim C8 says that an event recorded under a name that was never declared is
  aggregated as a counter. Recording does succeed (\<open>event\<close> has no failing branch), but
  the aggregator reports nothing for the name: \<open>getEventType\<close> is \<open>undefined\<close>, which is
  none of counter, meter and histogram. In the run below one event of value 5 is
  recorded under \<open>hits\<close> at 10000; the period for \<open>[10000, 20000]\<close> has an empty \<open>metrics\<close>
  dictionary and the event is deleted.
\<close>

theorem undeclared_not_aggregated:
  "run hdr_unused create [Event ''hits'' (Some (Num 5)) [] 10000, Tick 30000 ''p1'']
     = Inr \<lparr>aggregationIntervalMs = 10000, aggregationLagMs = 10000,
            events = [(''hits'', [])], eventTypes = [], eventNames = [], timers = [],
            periods = [[(''id'', PStr ''p1''), (''startsAt'', PNum 10000),
                        (''endsAt'', PNum 20000), (''metrics'', PMetrics [])]],
            nextPeriodBeginning = Some 20001\<rparr>"
  by (simp add: model_defs)

text \<open>
  Claim C9 says that \<open>getLastPeriod\<close> returns the period appended last. The code passes
  an empty object to the callback whatever the store holds: after the run
  \<open>watermark_ops\<close> the period list ends with \<open>watermark_period\<close>, and \<open>getLastPeriod\<close> still
  gives \<open>{}\<close>.
\<close>

theorem getLastPeriod_empty:
  "run hdr_unused create watermark_ops = Inr watermark_closed \<and>
   last (periods watermark_closed) = watermark_period \<and>
   getLastPeriod watermark_closed = [] \<and>
   getLastPeriod watermark_closed \<noteq> last (periods watermark_closed)"
  by (simp add: run_watermark) (simp add: watermark_closed_def watermark_period_def getLastPeriod_def)

text \<open>
  Claim C10. \<open>describeMetric\<close> resets the pending sequence of every name it declares:
  after the call, the timer sequence of a name declared as watermark is empty, and the
  event sequence of a name declared with any other type (or with none) is empty,
  whatever was recorded before and not yet aggregated.
\<close>

theorem redeclare_resets:
  assumes "d \<in> set defs"
  shows "(mtype d = Some Watermark \<longrightarrow>
            map_of (timers (describeMetric s defs)) (name d) = Some []) \<and>
         (mtype d \<noteq> Some Watermark \<longrightarrow>
            map_of (events (describeMetric s defs)) (name d) = Some [])"
  using assms unfolding describeMetric_def
proof (induction defs rule: rev_induct)
  case Nil
  then show ?case by simp
next
  case (snoc x xs)
  show ?case
  proof (cases "d = x")
    case True
    then show ?thesis by (simp add: describe_one_resets)
  next
    case False
    with snoc.prems have "d \<in> set xs" by simp
    from snoc.IH[OF this] show ?thesis by (auto simp: describe_one_keeps_empty)
  qed
qed

theorem redeclare_resets_witness:
  "requests_decl \<in> set [requests_decl] \<and>
   map_of (events basic_state) ''requests''
     = Some [\<lparr>ts = 1000, v = Num 1, tags = []\<rparr>, \<lparr>ts = 1001, v = Num 2, tags = []\<rparr>] \<and>
   map_of (events (describeMetric basic_state [requests_decl])) ''requests'' = Some []"
proof -
  have "requests_decl \<in> set [requests_decl]" by simp
  from redeclare_resets[OF this, of basic_state]
  have "map_of (events (describeMetric basic_state [requests_decl])) ''requests'' = Some []"
    by (simp add: requests_decl_def)
  moreover have "map_of (events basic_state) ''requests''
     = Some [\<lparr>ts = 1000, v = Num 1, tags = []\<rparr>, \<lparr>ts = 1001, v = Num 2, tags = []\<rparr>]"
    by (simp add: basic_state_def)
  ultimately show ?thesis by simp
qed

end
